theory Spec2Isabelle
  imports Main "HOL-Library.Word" "HOL-Library.Sublist"
begin

section \<open>Data model of plugins/meta/vrf/vrf.go\<close>

text \<open>
  The Go code works on the link, address and route structures of the netlink binding.
  Only the fields the code reads or writes are listed; the records are extensible, so a
  statement about a record update (\<open>r\<lparr>RouteTable := t\<rparr>\<close>) also covers the fields left out.
  Go's \<open>int\<close> is modelled as \<open>int\<close> (no arithmetic of the code can overflow 64 bits),
  \<open>uint32\<close> as \<open>32 word\<close>, a byte slice as a list of \<open>8 word\<close>, a nil-able field as an
  \<open>option\<close>.
\<close>

type_synonym uint32 = "32 word"
type_synonym bytes = "8 word list"

text \<open>\<open>netlink.LinkAttrs\<close>: index, name and master index of a link (0 = no master).\<close>

record LinkAttrs =
  Index :: int
  Name :: string
  MasterIndex :: int

text \<open>\<open>netlink.Vrf\<close> embeds \<open>LinkAttrs\<close> and adds the routing table.\<close>

record Vrf = LinkAttrs +
  Table :: uint32

text \<open>
  \<open>netlink.Link\<close> is an interface; the code only distinguishes \<open>*netlink.Vrf\<close> from every
  other implementation (type assertion \<open>link.(*netlink.Vrf)\<close>). \<open>LinkOther\<close> carries the
  link type name of the other implementations (dummy, veth, bridge, ...).
\<close>

datatype Link = LinkVrf Vrf | LinkOther string LinkAttrs

fun Attrs :: "Link \<Rightarrow> LinkAttrs" where
  "Attrs (LinkVrf vrf) = LinkAttrs.truncate vrf"
| "Attrs (LinkOther kind attrs) = attrs"

text \<open>\<open>net.IPNet\<close> and \<open>netlink.Addr\<close> (which embeds \<open>*net.IPNet\<close>).\<close>

record IPNet =
  IP :: bytes
  Mask :: bytes

record Addr = IPNet +
  Label :: string
  AddrScope :: int

text \<open>\<open>netlink.Route\<close>; \<open>RouteTable\<close> is the Go field \<open>Table\<close>, \<open>LinkIndex\<close>, \<open>Scope\<close>,
  \<open>Dst\<close>, \<open>Src\<close>, \<open>Gw\<close>, \<open>Protocol\<close> and \<open>Priority\<close> keep their names.\<close>

type_synonym Scope = "8 word"

record Route =
  LinkIndex :: int
  Scope :: Scope
  Dst :: "IPNet option"
  Src :: "bytes option"
  Gw :: "bytes option"
  Protocol :: int
  Priority :: int
  RouteTable :: int

datatype Family = FAMILY_ALL | FAMILY_V4 | FAMILY_V6

text \<open>The filter mask of \<open>RouteListFiltered\<close> is a bit set; \<open>|\<close> on flags is set union.\<close>

datatype RtFilter = RT_FILTER_OIF | RT_FILTER_SCOPE | RT_FILTER_TABLE | RT_FILTER_DST

definition SCOPE_UNIVERSE :: Scope where
  "SCOPE_UNIVERSE = 0"

definition MaxUint32 :: uint32 where
  "MaxUint32 = 4294967295"

text \<open>\<open>time.Duration\<close> counts nanoseconds.\<close>

definition Millisecond :: int where
  "Millisecond = 1000000"

subsection \<open>Errors\<close>

text \<open>
  Go's \<open>error\<close> values. \<open>Errno\<close> stands for an error produced by the kernel or the netlink
  binding; every other constructor is one \<open>fmt.Errorf\<close> call of vrf.go and carries the
  arguments of its format string, in order (an \<open>error\<close> argument is the wrapped cause
  printed by \<open>%v\<close> or \<open>%w\<close>).
\<close>

datatype error =
    Errno string
  | ErrNotVRF string
    \<comment> \<open>"Netlink %s is not a VRF"\<close>
  | ErrCreateVRFLinks error
    \<comment> \<open>"createVRF: Failed to find links %v"\<close>
  | ErrLinkAdd string error
    \<comment> \<open>"could not add VRF %s: %v"\<close>
  | ErrLinkSetUp string error
    \<comment> \<open>"could not set link up for VRF %s: %v"\<close>
  | ErrLinkByName string
    \<comment> \<open>"could not get link by name %s"\<close>
  | ErrMasterUnknown string error
    \<comment> \<open>"interface %s has already a master set, could not retrieve the name: %v"\<close>
  | ErrMasterSet string string
    \<comment> \<open>"interface %s has already a master set: %s"\<close>
  | ErrAddrsBefore error
    \<comment> \<open>"failed getting global ipv6 addresses before slaving interface: %w"\<close>
  | ErrRoutesSnapshot string
    \<comment> \<open>"failed getting all routes for %s"\<close>
  | ErrSetMaster string string error
    \<comment> \<open>"could not set vrf %s as master of %s: %v"\<close>
  | ErrAddrsAfter error
    \<comment> \<open>"failed getting global ipv6 addresses after slaving interface: %w"\<close>
  | ErrRestoreAddr Addr string string error
    \<comment> \<open>"could not restore address %s to %s @ %s: %v"\<close>
  | ErrRoutesQuery string uint32 IPNet error
    \<comment> \<open>"failed getting routes for %s table %d for dst %s: %v"\<close>
  | ErrNoHostRoute string uint32 IPNet
    \<comment> \<open>"failed getting local/host addresses for %s in table %d with dst %s"\<close>
  | ErrRouteReplace Route error
    \<comment> \<open>"could not add route '%s': %v"\<close>
  | ErrNoFreeTable
    \<comment> \<open>"findFreeRoutingTableID: Failed to find an available routing id"\<close>
  | ErrResetLookup string
    \<comment> \<open>"resetMaster: could not get link by name %s"\<close>
  | ErrResetMaster string
    \<comment> \<open>"resetMaster: could reset master to %s"\<close>
  | ErrAddrList string error
    \<comment> \<open>"failed getting list of IP addresses for %s: %w"\<close>

section \<open>The routing-table allocator\<close>

text \<open>
  \<open>findFreeRoutingTableID\<close>, first loop: the set of tables of the VRF links
  (\<open>map[uint32]struct{}\<close> is a set of keys).
\<close>

definition takenTables :: "Link list \<Rightarrow> uint32 set" where
  "takenTables links =
     foldl (\<lambda>taken l. case l of LinkVrf vrf \<Rightarrow> insert (Table vrf) taken | LinkOther _ _ \<Rightarrow> taken)
       {} links"

text \<open>Second loop: \<open>for res := uint32(1); res < math.MaxUint32; res++\<close>.\<close>

function findFreeLoop :: "uint32 set \<Rightarrow> uint32 \<Rightarrow> error + uint32" where
  "findFreeLoop taken res =
     (if res < MaxUint32 then
        (if res \<notin> taken then Inr res else findFreeLoop taken (res + 1))
      else Inl ErrNoFreeTable)"
  by pat_completeness auto
termination
proof (relation "measure (\<lambda>(taken, res). unat MaxUint32 - unat res)")
  show "wf (measure (\<lambda>(taken, res). unat MaxUint32 - unat res))"
    by simp
next
  fix taken :: "uint32 set" and res :: uint32
  assume "res < MaxUint32"
  then have "unat (res + 1) = Suc (unat res)" and "unat res < unat MaxUint32"
    by (simp_all add: MaxUint32_def unat_word_ariths word_less_nat_alt)
  then show "((taken, res + 1), (taken, res)) \<in> measure (\<lambda>(taken, res). unat MaxUint32 - unat res)"
    by simp
qed

declare findFreeLoop.simps [simp del]

definition findFreeRoutingTableID :: "Link list \<Rightarrow> error + uint32" where
  "findFreeRoutingTableID links = findFreeLoop (takenTables links) 1"

section \<open>The kernel interface\<close>

text \<open>
  vrf.go talks to the kernel through the netlink binding (\<open>netlink.X\<close> and the
  \<open>netlinksafe.X\<close> wrappers). The binding is not part of the file, so the model takes it
  as a parameter: a record of the requests the code issues, each a function on a kernel
  state of any type \<open>'k\<close> that returns Go's result (\<open>Inl\<close> or \<open>Some\<close> is a non-nil error)
  and the next kernel state. \<open>Sleep\<close> is \<open>time.Sleep\<close>: the kernel state may change while
  the process sleeps.
\<close>

record 'k Netlink =
  LinkByName :: "string \<Rightarrow> 'k \<Rightarrow> (error + Link) \<times> 'k"
  LinkByIndex :: "int \<Rightarrow> 'k \<Rightarrow> (error + Link) \<times> 'k"
  LinkList :: "'k \<Rightarrow> (error + Link list) \<times> 'k"
  LinkAdd :: "Link \<Rightarrow> 'k \<Rightarrow> error option \<times> 'k"
  LinkSetUp :: "Link \<Rightarrow> 'k \<Rightarrow> error option \<times> 'k"
  LinkSetMaster :: "Link \<Rightarrow> Link \<Rightarrow> 'k \<Rightarrow> error option \<times> 'k"
  LinkSetNoMaster :: "Link \<Rightarrow> 'k \<Rightarrow> error option \<times> 'k"
  AddrList :: "Link \<Rightarrow> Family \<Rightarrow> 'k \<Rightarrow> (error + Addr list) \<times> 'k"
  AddrAdd :: "Link \<Rightarrow> Addr \<Rightarrow> 'k \<Rightarrow> error option \<times> 'k"
  RouteListFiltered :: "Family \<Rightarrow> Route \<Rightarrow> RtFilter set \<Rightarrow> 'k \<Rightarrow> (error + Route list) \<times> 'k"
  RouteReplace :: "Route \<Rightarrow> 'k \<Rightarrow> error option \<times> 'k"
  Sleep :: "int \<Rightarrow> 'k \<Rightarrow> 'k"

text \<open>
  The requests a run issues, in program order, each with the kernel's answer. The trace is
  not a variable of the Go code: it records which calls the code makes, so that
  statements such as "no route is replaced" or "at most nine queries" can be written.
\<close>

datatype event =
    EvLinkByName string "error + Link"
  | EvLinkByIndex int "error + Link"
  | EvLinkList "error + Link list"
  | EvLinkAdd Link "error option"
  | EvLinkSetUp Link "error option"
  | EvLinkSetMaster Link Link "error option"
  | EvLinkSetNoMaster Link "error option"
  | EvAddrList Link Family "error + Addr list"
  | EvAddrAdd Link Addr "error option"
  | EvRouteListFiltered Family Route "RtFilter set" "error + Route list"
  | EvRouteReplace Route "error option"
  | EvSleep int

type_synonym 'k world = "'k \<times> event list"

text \<open>One request: ask the kernel, keep its next state, log the request with its answer.\<close>

definition call :: "('r \<Rightarrow> event) \<Rightarrow> ('k \<Rightarrow> 'r \<times> 'k) \<Rightarrow> 'k world \<Rightarrow> 'r \<times> 'k world" where
  "call ev request w = (case request (fst w) of (r, k') \<Rightarrow> (r, (k', snd w @ [ev r])))"

definition sleep :: "'k Netlink \<Rightarrow> int \<Rightarrow> 'k world \<Rightarrow> 'k world" where
  "sleep K d w = (Sleep K d (fst w), snd w @ [EvSleep d])"

section \<open>The functions of vrf.go\<close>

text \<open>\<open>findVRF\<close> (lines 29-39).\<close>

definition findVRF :: "'k Netlink \<Rightarrow> string \<Rightarrow> 'k world \<Rightarrow> (error + Vrf) \<times> 'k world" where
  "findVRF K name w =
     (case call (EvLinkByName name) (LinkByName K name) w of
        (Inl err, w1) \<Rightarrow> (Inl err, w1)
      | (Inr link, w1) \<Rightarrow>
          (case link of
             LinkVrf vrf \<Rightarrow> (Inr vrf, w1)
           | LinkOther _ _ \<Rightarrow> (Inl (ErrNotVRF name), w1)))"

text \<open>
  \<open>createVRF\<close> (lines 42-72). \<open>netlink.NewLinkAttrs()\<close> is the zero value of the fields
  modelled here. The binding stores the new link's index through the pointer it is given;
  the model returns the descriptor as the code built it, so only \<open>Name\<close> and \<open>Table\<close> of the
  result are meaningful.
\<close>

definition NewLinkAttrs :: LinkAttrs where
  "NewLinkAttrs = \<lparr>Index = 0, Name = [], MasterIndex = 0\<rparr>"

definition createVRF :: "'k Netlink \<Rightarrow> string \<Rightarrow> uint32 \<Rightarrow> 'k world \<Rightarrow> (error + Vrf) \<times> 'k world" where
  "createVRF K name tableID w =
     (case call EvLinkList (LinkList K) w of
        (Inl err, w1) \<Rightarrow> (Inl (ErrCreateVRFLinks err), w1)
      | (Inr links, w1) \<Rightarrow>
          (case (if tableID = 0 then findFreeRoutingTableID links else Inr tableID) of
             Inl err \<Rightarrow> (Inl err, w1)
           | Inr tableID' \<Rightarrow>
               (let linkAttrs = NewLinkAttrs\<lparr>Name := name\<rparr>;
                    vrf = \<lparr>Index = Index linkAttrs, Name = Name linkAttrs,
                           MasterIndex = MasterIndex linkAttrs, Table = tableID'\<rparr>
                in case call (EvLinkAdd (LinkVrf vrf)) (LinkAdd K (LinkVrf vrf)) w1 of
                     (Some err, w2) \<Rightarrow> (Inl (ErrLinkAdd name err), w2)
                   | (None, w2) \<Rightarrow>
                       (case call (EvLinkSetUp (LinkVrf vrf)) (LinkSetUp K (LinkVrf vrf)) w2 of
                          (Some err, w3) \<Rightarrow> (Inl (ErrLinkSetUp name err), w3)
                        | (None, w3) \<Rightarrow> (Inr vrf, w3)))))"

text \<open>\<open>getGlobalAddresses\<close> (lines 236-250); the loop that appends is a \<open>filter\<close>.\<close>

definition getGlobalAddresses ::
  "'k Netlink \<Rightarrow> Link \<Rightarrow> Family \<Rightarrow> 'k world \<Rightarrow> (error + Addr list) \<times> 'k world" where
  "getGlobalAddresses K link family w =
     (case call (EvAddrList link family) (AddrList K link family) w of
        (Inl err, w1) \<Rightarrow> (Inl (ErrAddrList (Name (Attrs link)) err), w1)
      | (Inr addresses, w1) \<Rightarrow>
          (Inr (filter (\<lambda>addr. AddrScope addr = uint SCOPE_UNIVERSE) addresses), w1))"

text \<open>
  Modelled from the spec: \<open>netlink.Addr.Equal\<close> belongs to the binding and is not under
  src/. The spec keys the before/after diff "on exact address+prefix-length equality";
  labels, flags and scope play no part.
\<close>

definition Addr_Equal :: "Addr \<Rightarrow> Addr \<Rightarrow> bool" where
  "Addr_Equal a x = (IP a = IP x \<and> Mask a = Mask x)"

text \<open>
  The two \<open>netlink.Route\<close> literals of \<open>addInterface\<close>: fields that a Go struct literal
  does not mention are zero (\<open>emptyRoute\<close>). \<open>snapshotFilter\<close> is the filter of lines 114-117,
  \<open>hostRouteFilter\<close> the one of lines 164-171 (the 16 bytes \<open>0xff\<close> are the /128 mask).
\<close>

definition emptyRoute :: Route where
  "emptyRoute = \<lparr>LinkIndex = 0, Scope = 0, Dst = None, Src = None, Gw = None,
                  Protocol = 0, Priority = 0, RouteTable = 0\<rparr>"

definition snapshotFilter :: "Link \<Rightarrow> Route" where
  "snapshotFilter i = emptyRoute\<lparr>LinkIndex := Index (Attrs i), Scope := SCOPE_UNIVERSE\<rparr>"

definition hostRouteFilter :: "Vrf \<Rightarrow> Link \<Rightarrow> Addr \<Rightarrow> Route" where
  "hostRouteFilter vrf i toFind =
     emptyRoute\<lparr>Dst := Some \<lparr>IP = IP toFind, Mask = replicate 16 0xff\<rparr>,
                 RouteTable := uint (Table vrf),
                 LinkIndex := Index (Attrs i)\<rparr>"

definition backoffBase :: int where
  "backoffBase = 10 * Millisecond"

definition maxRetries :: nat where
  "maxRetries = 8"

text \<open>
  The retry loop of lines 159-189, \<open>for retryCount := 0; retryCount <= maxRetries;
  retryCount++\<close>, as a function of \<open>retryCount\<close>. \<open>break\<close> leaves the loop with no error.
\<close>

function waitForHostRoute ::
  "'k Netlink \<Rightarrow> Vrf \<Rightarrow> string \<Rightarrow> Link \<Rightarrow> Addr \<Rightarrow> nat \<Rightarrow> 'k world \<Rightarrow> error option \<times> 'k world" where
  "waitForHostRoute K vrf intf i toFind retryCount w =
     (if retryCount \<le> maxRetries then
        (case call (EvRouteListFiltered FAMILY_ALL (hostRouteFilter vrf i toFind)
                      {RT_FILTER_OIF, RT_FILTER_TABLE, RT_FILTER_DST})
                (RouteListFiltered K FAMILY_ALL (hostRouteFilter vrf i toFind)
                      {RT_FILTER_OIF, RT_FILTER_TABLE, RT_FILTER_DST}) w of
           (Inl err, w1) \<Rightarrow>
             (Some (ErrRoutesQuery intf (Table vrf) (IPNet.truncate toFind) err), w1)
         | (Inr routesVRFTable, w1) \<Rightarrow>
             if length routesVRFTable \<ge> 1 then (None, w1)
             else if retryCount = maxRetries then
               (Some (ErrNoHostRoute intf (Table vrf) (IPNet.truncate toFind)), w1)
             else waitForHostRoute K vrf intf i toFind (retryCount + 1)
                    (sleep K (backoffBase * 2 ^ retryCount) w1))
      else (None, w))"
  by pat_completeness auto
termination
  by (relation "measure (\<lambda>(K, vrf, intf, i, toFind, retryCount, w). Suc maxRetries - retryCount)") auto

declare waitForHostRoute.simps [simp del]

text \<open>
  The loop labelled \<open>CONTINUE\<close> (lines 145-190) over \<open>beforeAddresses\<close>; the inner loop
  over \<open>afterAddresses\<close> that continues the outer one on the first \<open>Equal\<close> address is
  \<open>list_ex\<close>.
\<close>

fun restoreAddresses ::
  "'k Netlink \<Rightarrow> Vrf \<Rightarrow> string \<Rightarrow> Link \<Rightarrow> Addr list \<Rightarrow> Addr list \<Rightarrow> 'k world \<Rightarrow> error option \<times> 'k world" where
  "restoreAddresses K vrf intf i afterAddresses [] w = (None, w)"
| "restoreAddresses K vrf intf i afterAddresses (toFind # rest) w =
     (if list_ex (Addr_Equal toFind) afterAddresses then
        restoreAddresses K vrf intf i afterAddresses rest w
      else
        (case call (EvAddrAdd i toFind) (AddrAdd K i toFind) w of
           (Some err, w1) \<Rightarrow> (Some (ErrRestoreAddr toFind intf (Name vrf) err), w1)
         | (None, w1) \<Rightarrow>
             (case waitForHostRoute K vrf intf i toFind 0 w1 of
                (Some err, w2) \<Rightarrow> (Some err, w2)
              | (None, w2) \<Rightarrow> restoreAddresses K vrf intf i afterAddresses rest w2)))"

text \<open>The loop over \<open>globalRoutes\<close> (lines 193-202).\<close>

fun replayRoutes :: "'k Netlink \<Rightarrow> Vrf \<Rightarrow> Route list \<Rightarrow> 'k world \<Rightarrow> error option \<times> 'k world" where
  "replayRoutes K vrf [] w = (None, w)"
| "replayRoutes K vrf (route # rest) w =
     (let r = route\<lparr>RouteTable := uint (Table vrf)\<rparr>
      in case call (EvRouteReplace r) (RouteReplace K r) w of
           (Some err, w1) \<Rightarrow> (Some (ErrRouteReplace r err), w1)
         | (None, w1) \<Rightarrow> replayRoutes K vrf rest w1)"

text \<open>\<open>addInterface\<close> (lines 90-205).\<close>

definition addInterface :: "'k Netlink \<Rightarrow> Vrf \<Rightarrow> string \<Rightarrow> 'k world \<Rightarrow> error option \<times> 'k world" where
  "addInterface K vrf intf w =
     (case call (EvLinkByName intf) (LinkByName K intf) w of
        (Inl err, w1) \<Rightarrow> (Some (ErrLinkByName intf), w1)
      | (Inr i, w1) \<Rightarrow>
          if MasterIndex (Attrs i) \<noteq> 0 then
            (case call (EvLinkByIndex (MasterIndex (Attrs i)))
                    (LinkByIndex K (MasterIndex (Attrs i))) w1 of
               (Inl err, w2) \<Rightarrow> (Some (ErrMasterUnknown intf err), w2)
             | (Inr master, w2) \<Rightarrow> (Some (ErrMasterSet intf (Name (Attrs master))), w2))
          else
            (case getGlobalAddresses K i FAMILY_V6 w1 of
               (Inl err, w2) \<Rightarrow> (Some (ErrAddrsBefore err), w2)
             | (Inr beforeAddresses, w2) \<Rightarrow>
                 (case call (EvRouteListFiltered FAMILY_ALL (snapshotFilter i)
                               {RT_FILTER_OIF, RT_FILTER_SCOPE})
                         (RouteListFiltered K FAMILY_ALL (snapshotFilter i)
                               {RT_FILTER_OIF, RT_FILTER_SCOPE}) w2 of
                    (Inl err, w3) \<Rightarrow> (Some (ErrRoutesSnapshot intf), w3)
                  | (Inr r, w3) \<Rightarrow>
                      (let globalRoutes = filter (\<lambda>route. Src route \<noteq> None) r
                       in case call (EvLinkSetMaster i (LinkVrf vrf))
                                 (LinkSetMaster K i (LinkVrf vrf)) w3 of
                            (Some err, w4) \<Rightarrow> (Some (ErrSetMaster (Name vrf) intf err), w4)
                          | (None, w4) \<Rightarrow>
                              (case getGlobalAddresses K i FAMILY_V6 w4 of
                                 (Inl err, w5) \<Rightarrow> (Some (ErrAddrsAfter err), w5)
                               | (Inr afterAddresses, w5) \<Rightarrow>
                                   (case restoreAddresses K vrf intf i afterAddresses
                                           beforeAddresses w5 of
                                      (Some err, w6) \<Rightarrow> (Some err, w6)
                                    | (None, w6) \<Rightarrow> replayRoutes K vrf globalRoutes w6))))))"

text \<open>\<open>resetMaster\<close> (lines 223-233).\<close>

definition resetMaster :: "'k Netlink \<Rightarrow> string \<Rightarrow> 'k world \<Rightarrow> error option \<times> 'k world" where
  "resetMaster K interfaceName w =
     (case call (EvLinkByName interfaceName) (LinkByName K interfaceName) w of
        (Inl err, w1) \<Rightarrow> (Some (ErrResetLookup interfaceName), w1)
      | (Inr intf, w1) \<Rightarrow>
          (case call (EvLinkSetNoMaster intf) (LinkSetNoMaster K intf) w1 of
             (Some err, w2) \<Rightarrow> (Some (ErrResetMaster interfaceName), w2)
           | (None, w2) \<Rightarrow> (None, w2)))"

section \<open>Notions the statements use\<close>

text \<open>
  The definitions of this section are not code of vrf.go: they name what the claims talk
  about (the set \<open>T\<close> of tables in use, the addresses missing after enslavement, the
  requests of one kind in a trace), so that each theorem can be compared with its claim.
\<close>

text \<open>The set \<open>T\<close> of table IDs used by the VRF devices of a link list.\<close>

definition tablesOfVrfs :: "Link list \<Rightarrow> uint32 set" where
  "tablesOfVrfs links = set [Table vrf. LinkVrf vrf \<leftarrow> links]"

definition isVrf :: "Link \<Rightarrow> bool" where
  "isVrf l = (case l of LinkVrf _ \<Rightarrow> True | LinkOther _ _ \<Rightarrow> False)"

text \<open>
  The global addresses of a listing (the filter of \<open>getGlobalAddresses\<close>), and the addresses
  of the before-snapshot that no address of the after-snapshot equals.
\<close>

definition globalOnly :: "Addr list \<Rightarrow> Addr list" where
  "globalOnly addresses = filter (\<lambda>addr. AddrScope addr = 0) addresses"

definition missingAddresses :: "Addr list \<Rightarrow> Addr list \<Rightarrow> Addr list" where
  "missingAddresses beforeAddresses afterAddresses =
     filter (\<lambda>a. \<not> list_ex (Addr_Equal a) afterAddresses) beforeAddresses"

text \<open>The captured route as it is replayed: only the table is rewritten.\<close>

definition retable :: "Vrf \<Rightarrow> Route \<Rightarrow> Route" where
  "retable vrf r = r\<lparr>RouteTable := uint (Table vrf)\<rparr>"

text \<open>The \<open>AddrAdd\<close> and \<open>RouteReplace\<close> requests of a trace, in order, with their answers.\<close>

fun addrAdds :: "event list \<Rightarrow> (Link \<times> Addr \<times> error option) list" where
  "addrAdds [] = []"
| "addrAdds (EvAddrAdd l a r # evs) = (l, a, r) # addrAdds evs"
| "addrAdds (_ # evs) = addrAdds evs"

fun routeReplaces :: "event list \<Rightarrow> (Route \<times> error option) list" where
  "routeReplaces [] = []"
| "routeReplaces (EvRouteReplace r e # evs) = (r, e) # routeReplaces evs"
| "routeReplaces (_ # evs) = routeReplaces evs"

text \<open>
  Requests that change kernel state, and the requests of the repair phase (listings,
  sleeps, address adds and route replaces).
\<close>

fun isMutation :: "event \<Rightarrow> bool" where
  "isMutation (EvLinkAdd _ _) = True"
| "isMutation (EvLinkSetUp _ _) = True"
| "isMutation (EvLinkSetMaster _ _ _) = True"
| "isMutation (EvLinkSetNoMaster _ _) = True"
| "isMutation (EvAddrAdd _ _ _) = True"
| "isMutation (EvRouteReplace _ _) = True"
| "isMutation _ = False"

fun isListOrRepair :: "event \<Rightarrow> bool" where
  "isListOrRepair (EvAddrList _ _ _) = True"
| "isListOrRepair (EvAddrAdd _ _ _) = True"
| "isListOrRepair (EvRouteListFiltered _ _ _ _) = True"
| "isListOrRepair (EvRouteReplace _ _) = True"
| "isListOrRepair (EvSleep _) = True"
| "isListOrRepair _ = False"

text \<open>
  A property of the kernel state that no listing, sleep, address add or route replace
  destroys (for instance "the interface is enslaved to the VRF" or "this address is
  installed", in a kernel where only the matching removal undoes them).
\<close>

definition survivesRepair :: "'k Netlink \<Rightarrow> ('k \<Rightarrow> bool) \<Rightarrow> bool" where
  "survivesRepair K P =
     ((\<forall>l family k. P k \<longrightarrow> P (snd (AddrList K l family k))) \<and>
      (\<forall>l a k. P k \<longrightarrow> P (snd (AddrAdd K l a k))) \<and>
      (\<forall>family flt fmask k. P k \<longrightarrow> P (snd (RouteListFiltered K family flt fmask k))) \<and>
      (\<forall>r k. P k \<longrightarrow> P (snd (RouteReplace K r k))) \<and>
      (\<forall>d k. P k \<longrightarrow> P (Sleep K d k)))"

text \<open>
  The trace of a wait: queries and sleeps alternate, starting and ending with a query.
  \<open>backoffSchedule\<close> lists the eight sleeps, in nanoseconds.
\<close>

fun interleave :: "'a list \<Rightarrow> 'a list \<Rightarrow> 'a list" where
  "interleave [] ys = ys"
| "interleave (x # xs) [] = x # xs"
| "interleave (x # xs) (y # ys) = x # y # interleave xs ys"

definition backoffSchedule :: "int list" where
  "backoffSchedule = map (\<lambda>ms. ms * Millisecond) [10, 20, 40, 80, 160, 320, 640, 1280]"

section \<open>Concrete inputs\<close>

text \<open>
  \<open>exLinks\<close>: two VRF devices with tables 1 and 3 and one veth interface.
  \<open>fullLinks\<close>: one VRF device for every table from 1 to \<open>2^32 - 2\<close>.
\<close>

definition vrfWithTable :: "nat \<Rightarrow> Link" where
  "vrfWithTable n = LinkVrf \<lparr>Index = int n, Name = ''vrf'', MasterIndex = 0, Table = of_nat n\<rparr>"

definition fullLinks :: "Link list" where
  "fullLinks = map vrfWithTable [1..<4294967295]"

definition exLinks :: "Link list" where
  "exLinks = [LinkVrf \<lparr>Index = 4, Name = ''vrf-red'', MasterIndex = 0, Table = 1\<rparr>,
              LinkOther ''veth'' \<lparr>Index = 2, Name = ''eth0'', MasterIndex = 0\<rparr>,
              LinkVrf \<lparr>Index = 5, Name = ''vrf-green'', MasterIndex = 0, Table = 3\<rparr>]"

subsection \<open>A small kernel for the concrete runs\<close>

text \<open>
  The witnesses run the functions against \<open>simK\<close>, a kernel that keeps a list of links,
  the addresses of each link and a list of routes. Setting the master of a link drops the
  link's global addresses and its routes (what the kernel does unless
  \<open>keep_addr_on_down\<close> is set); an added address gets its host route, in the table of the
  link's master, when the process next sleeps.
\<close>

record Sim =
  simLinks :: "Link list"
  simAddrs :: "(int \<times> Addr) list"
  simRoutes :: "Route list"
  simPending :: "Route list"

definition simSetMaster :: "int \<Rightarrow> Link \<Rightarrow> Link" where
  "simSetMaster m l =
     (case l of
        LinkVrf v \<Rightarrow> LinkVrf (v\<lparr>MasterIndex := m\<rparr>)
      | LinkOther kind a \<Rightarrow> LinkOther kind (a\<lparr>MasterIndex := m\<rparr>))"

definition simSetIndex :: "int \<Rightarrow> Link \<Rightarrow> Link" where
  "simSetIndex n l =
     (case l of
        LinkVrf v \<Rightarrow> LinkVrf (v\<lparr>Index := n\<rparr>)
      | LinkOther kind a \<Rightarrow> LinkOther kind (a\<lparr>Index := n\<rparr>))"

definition simLookup :: "(Link \<Rightarrow> bool) \<Rightarrow> Sim \<Rightarrow> (error + Link) \<times> Sim" where
  "simLookup p k =
     (case find p (simLinks k) of
        Some l \<Rightarrow> (Inr l, k)
      | None \<Rightarrow> (Inl (Errno ''Link not found''), k))"

definition simTable :: "Sim \<Rightarrow> int \<Rightarrow> int" where
  "simTable k idx =
     (case find (\<lambda>l. Index (Attrs l) = idx) (simLinks k) of
        Some l \<Rightarrow>
          (case find (\<lambda>m. Index (Attrs m) = MasterIndex (Attrs l)) (simLinks k) of
             Some (LinkVrf v) \<Rightarrow> uint (Table v)
           | _ \<Rightarrow> 254)
      | None \<Rightarrow> 254)"

definition routeMatches :: "Route \<Rightarrow> RtFilter set \<Rightarrow> Route \<Rightarrow> bool" where
  "routeMatches flt fmask r =
     ((RT_FILTER_OIF \<in> fmask \<longrightarrow> LinkIndex r = LinkIndex flt) \<and>
      (RT_FILTER_SCOPE \<in> fmask \<longrightarrow> Scope r = Scope flt) \<and>
      (RT_FILTER_TABLE \<in> fmask \<longrightarrow> RouteTable r = RouteTable flt) \<and>
      (RT_FILTER_DST \<in> fmask \<longrightarrow> Dst r = Dst flt))"

definition simHostRoute :: "Sim \<Rightarrow> Link \<Rightarrow> Addr \<Rightarrow> Route" where
  "simHostRoute k l a =
     \<lparr>LinkIndex = Index (Attrs l), Scope = 254,
      Dst = Some \<lparr>IP = IP a, Mask = replicate 16 0xff\<rparr>, Src = None, Gw = None,
      Protocol = 2, Priority = 0, RouteTable = simTable k (Index (Attrs l))\<rparr>"

definition simK :: "Sim Netlink" where
  "simK =
     \<lparr>LinkByName = (\<lambda>name. simLookup (\<lambda>l. Name (Attrs l) = name)),
      LinkByIndex = (\<lambda>idx. simLookup (\<lambda>l. Index (Attrs l) = idx)),
      LinkList = (\<lambda>k. (Inr (simLinks k), k)),
      LinkAdd = (\<lambda>l k. (None,
         k\<lparr>simLinks := simLinks k @ [simSetIndex (int (length (simLinks k)) + 2) l]\<rparr>)),
      LinkSetUp = (\<lambda>l k. (None, k)),
      LinkSetMaster = (\<lambda>l m k. (None,
         k\<lparr>simLinks := map (\<lambda>x. if Index (Attrs x) = Index (Attrs l)
                                  then simSetMaster (Index (Attrs m)) x else x) (simLinks k),
           simAddrs := filter (\<lambda>(i, a). \<not> (i = Index (Attrs l) \<and> AddrScope a = 0)) (simAddrs k),
           simRoutes := filter (\<lambda>r. LinkIndex r \<noteq> Index (Attrs l)) (simRoutes k)\<rparr>)),
      LinkSetNoMaster = (\<lambda>l k. (None,
         k\<lparr>simLinks := map (\<lambda>x. if Index (Attrs x) = Index (Attrs l)
                                  then simSetMaster 0 x else x) (simLinks k)\<rparr>)),
      AddrList = (\<lambda>l family k.
         (Inr (map snd (filter (\<lambda>(i, a). i = Index (Attrs l)) (simAddrs k))), k)),
      AddrAdd = (\<lambda>l a k. (None,
         k\<lparr>simAddrs := simAddrs k @ [(Index (Attrs l), a)],
           simPending := simPending k @ [simHostRoute k l a]\<rparr>)),
      RouteListFiltered = (\<lambda>family flt fmask k.
         (Inr (filter (routeMatches flt fmask) (simRoutes k)), k)),
      RouteReplace = (\<lambda>r k. (None, k\<lparr>simRoutes := simRoutes k @ [r]\<rparr>)),
      Sleep = (\<lambda>d k. k\<lparr>simRoutes := simRoutes k @ simPending k, simPending := []\<rparr>)\<rparr>"

text \<open>
  The namespace of the runs: \<open>eth1\<close> (index 3) with the global address
  \<open>2001:db8::10/64\<close> and a link-local one, a default route with a source address and a route
  without one; the VRF devices of \<open>exLinks\<close> (tables 1 and 3); and \<open>vrf-blue\<close>
  (index 7, table 2), the VRF \<open>eth1\<close> is moved to.
\<close>

definition eth1 :: Link where
  "eth1 = LinkOther ''veth'' \<lparr>Index = 3, Name = ''eth1'', MasterIndex = 0\<rparr>"

definition vrfBlue :: Vrf where
  "vrfBlue = \<lparr>Index = 7, Name = ''vrf-blue'', MasterIndex = 0, Table = 2\<rparr>"

definition addrGlobal :: Addr where
  "addrGlobal = \<lparr>IP = [0x20, 0x01, 0x0d, 0xb8, 0, 0, 0, 0, 0, 0, 0, 0, 0, 0, 0, 0x10],
                  Mask = replicate 8 0xff @ replicate 8 0, Label = [], AddrScope = 0\<rparr>"

definition addrLinkLocal :: Addr where
  "addrLinkLocal = \<lparr>IP = [0xfe, 0x80, 0, 0, 0, 0, 0, 0, 0, 0, 0, 0, 0, 0, 0, 1],
                     Mask = replicate 8 0xff @ replicate 8 0, Label = [], AddrScope = 253\<rparr>"

definition routeDefault :: Route where
  "routeDefault = \<lparr>LinkIndex = 3, Scope = 0, Dst = None, Src = Some (IP addrGlobal),
                    Gw = Some [0x20, 0x01, 0x0d, 0xb8, 0, 0, 0, 0, 0, 0, 0, 0, 0, 0, 0, 1],
                    Protocol = 4, Priority = 0, RouteTable = 254\<rparr>"

definition routeNoSrc :: Route where
  "routeNoSrc = \<lparr>LinkIndex = 3, Scope = 0,
                  Dst = Some \<lparr>IP = [0x20, 0x01, 0x0d, 0xb8, 0, 1, 0, 0, 0, 0, 0, 0, 0, 0, 0, 0],
                              Mask = replicate 6 0xff @ replicate 10 0\<rparr>,
                  Src = None, Gw = None, Protocol = 3, Priority = 0, RouteTable = 254\<rparr>"

definition sim0 :: Sim where
  "sim0 = \<lparr>simLinks = eth1 # exLinks @ [LinkVrf vrfBlue],
           simAddrs = [(3, addrGlobal), (3, addrLinkLocal)],
           simRoutes = [routeDefault, routeNoSrc],
           simPending = []\<rparr>"

text \<open>
  \<open>sim1\<close> is the namespace after \<open>eth1\<close> has been enslaved to \<open>vrf-blue\<close>; in \<open>simOrphan\<close>
  the master of \<open>eth1\<close> is a link that no longer exists; \<open>simNoBlue\<close> is \<open>sim0\<close> before
  \<open>vrf-blue\<close> is created. \<open>simFailReplace\<close> and \<open>simFailAdd\<close> are kernels that reject
  every route replace, respectively every address add.
\<close>

definition sim1 :: Sim where
  "sim1 = snd (LinkSetMaster simK eth1 (LinkVrf vrfBlue) sim0)"

definition simOrphan :: Sim where
  "simOrphan = sim0\<lparr>simLinks := [LinkOther ''veth'' \<lparr>Index = 3, Name = ''eth1'', MasterIndex = 9\<rparr>]\<rparr>"

definition simNoBlue :: Sim where
  "simNoBlue = sim0\<lparr>simLinks := eth1 # exLinks\<rparr>"

definition simFailReplace :: "Sim Netlink" where
  "simFailReplace = simK\<lparr>RouteReplace := (\<lambda>r k. (Some (Errno ''EINVAL''), k))\<rparr>"

definition simFailAdd :: "Sim Netlink" where
  "simFailAdd = simK\<lparr>AddrAdd := (\<lambda>l a k. (Some (Errno ''EACCES''), k))\<rparr>"

section \<open>The allocator returns the smallest free table\<close>

lemma foldl_taken:
  "foldl (\<lambda>taken l. case l of LinkVrf vrf \<Rightarrow> insert (Table vrf) taken | LinkOther _ _ \<Rightarrow> taken) acc links
     = acc \<union> tablesOfVrfs links"
  by (induction links arbitrary: acc) (auto simp: tablesOfVrfs_def split: Link.splits)

lemma takenTables_eq: "takenTables links = tablesOfVrfs links"
  by (simp add: takenTables_def foldl_taken)

lemma tablesOfVrfs_filter: "tablesOfVrfs (filter isVrf links) = tablesOfVrfs links"
  by (induction links) (auto simp: tablesOfVrfs_def isVrf_def split: Link.splits)

lemma tablesOfVrfs_iff: "t \<in> tablesOfVrfs links \<longleftrightarrow> (\<exists>vrf. LinkVrf vrf \<in> set links \<and> Table vrf = t)"
  by (induction links) (auto simp: tablesOfVrfs_def split: Link.splits)

lemma word_next: "(res::uint32) \<le> t \<Longrightarrow> t \<noteq> res \<Longrightarrow> res < MaxUint32 \<Longrightarrow> res + 1 \<le> t"
  by (simp add: inc_le)

lemma word_next_less: "(res::uint32) < MaxUint32 \<Longrightarrow> res < res + 1"
  by (simp add: MaxUint32_def word_less_nat_alt unat_word_ariths)

lemma findFreeLoop_Inr:
  "findFreeLoop taken res = Inr r \<Longrightarrow>
     res \<le> r \<and> r < MaxUint32 \<and> r \<notin> taken \<and> (\<forall>t. res \<le> t \<and> t < r \<longrightarrow> t \<in> taken)"
proof (induction taken res rule: findFreeLoop.induct)
  case (1 taken res)
  show ?case
  proof (cases "res < MaxUint32 \<and> res \<in> taken")
    case True
    then have "findFreeLoop taken (res + 1) = Inr r"
      using "1.prems" by (simp add: findFreeLoop.simps [of taken res])
    with "1.IH" True have ih: "res + 1 \<le> r" "r < MaxUint32" "r \<notin> taken"
      "\<forall>t. res + 1 \<le> t \<and> t < r \<longrightarrow> t \<in> taken" by auto
    from True have "res < res + 1" by (simp add: word_next_less)
    with ih(1) have "res \<le> r" by simp
    moreover have "t \<in> taken" if "res \<le> t" "t < r" for t
    proof (cases "t = res")
      case True
      with \<open>res < MaxUint32 \<and> res \<in> taken\<close> show ?thesis by simp
    next
      case False
      with that True have "res + 1 \<le> t" by (simp add: word_next)
      with ih(4) that show ?thesis by simp
    qed
    ultimately show ?thesis using ih by blast
  next
    case False
    with "1.prems" show ?thesis
      by (auto simp: findFreeLoop.simps [of taken res] split: if_splits)
  qed
qed

lemma findFreeLoop_Inl:
  "findFreeLoop taken res = Inl e \<Longrightarrow>
     e = ErrNoFreeTable \<and> (\<forall>t. res \<le> t \<and> t < MaxUint32 \<longrightarrow> t \<in> taken)"
proof (induction taken res rule: findFreeLoop.induct)
  case (1 taken res)
  show ?case
  proof (cases "res < MaxUint32 \<and> res \<in> taken")
    case True
    then have "findFreeLoop taken (res + 1) = Inl e"
      using "1.prems" by (simp add: findFreeLoop.simps [of taken res])
    with "1.IH" True have ih: "e = ErrNoFreeTable"
      "\<forall>t. res + 1 \<le> t \<and> t < MaxUint32 \<longrightarrow> t \<in> taken" by auto
    have "t \<in> taken" if "res \<le> t" "t < MaxUint32" for t
    proof (cases "t = res")
      case True
      with \<open>res < MaxUint32 \<and> res \<in> taken\<close> show ?thesis by simp
    next
      case False
      with that True have "res + 1 \<le> t" by (simp add: word_next)
      with ih(2) that show ?thesis by simp
    qed
    with ih show ?thesis by blast
  next
    case False
    with "1.prems" show ?thesis
      by (auto simp: findFreeLoop.simps [of taken res] split: if_splits)
  qed
qed

lemma findFreeLoop_exhausted:
  "(\<forall>t. res \<le> t \<and> t < MaxUint32 \<longrightarrow> t \<in> taken) \<Longrightarrow> findFreeLoop taken res = Inl ErrNoFreeTable"
proof (cases "findFreeLoop taken res")
  case (Inl e)
  then show ?thesis using findFreeLoop_Inl by blast
next
  case (Inr r)
  assume all: "\<forall>t. res \<le> t \<and> t < MaxUint32 \<longrightarrow> t \<in> taken"
  from findFreeLoop_Inr [OF Inr] have "res \<le> r" "r < MaxUint32" "r \<notin> taken" by auto
  with all show ?thesis by blast
qed

lemma one_le_iff: "(1::uint32) \<le> t \<longleftrightarrow> 0 < t"
  by (simp add: word_le_nat_alt word_less_nat_alt) (metis One_nat_def Suc_leI le_zero_eq not_less_eq_eq unat_eq_zero unat_gt_0)

lemma least_unat:
  assumes r: "0 < r" "r \<notin> T" "\<forall>s. 0 < s \<and> s < r \<longrightarrow> s \<in> T"
  shows "unat (r::uint32) = (LEAST n. 0 < n \<and> n \<notin> unat ` T)"
proof (rule Least_equality [symmetric])
  from r(1,2) show "0 < unat r \<and> unat r \<notin> unat ` T"
    by (auto simp: word_less_nat_alt word_unat_eq_iff [symmetric])
next
  fix n assume n: "0 < n \<and> n \<notin> unat ` T"
  show "unat r \<le> n"
  proof (rule ccontr)
    assume "\<not> unat r \<le> n"
    then have lt: "n < unat r" by simp
    let ?s = "of_nat n :: uint32"
    have "unat r < 2 ^ 32" using unsigned_less [of r, where 'a=nat] by simp
    with lt have un: "unat ?s = n" by (simp add: unat_of_nat)
    with lt n have "0 < ?s" "?s < r" by (simp_all add: word_less_nat_alt)
    with r(3) have "?s \<in> T" by blast
    then have "unat ?s \<in> unat ` T" by blast
    with un n show False by simp
  qed
qed

text \<open>
  Claim C5, amended. Let \<open>T = tablesOfVrfs links\<close> be the tables of the VRF devices of the
  link list. Whenever some table \<open>t\<close> with \<open>0 < t < MaxUint32\<close> is not in \<open>T\<close>,
  \<open>findFreeRoutingTableID\<close> succeeds and returns the smallest positive integer that is not
  in \<open>T\<close>: the result \<open>r\<close> is positive, free, every smaller positive table is taken, and
  \<open>unat r\<close> is the least positive natural number outside \<open>T\<close>. Links that are not VRF
  devices play no part: dropping them from the list gives the same result.
\<close>

theorem findFreeRoutingTableID_smallest_free:
  assumes "0 < t" and "t < MaxUint32" and "t \<notin> tablesOfVrfs links"
  shows "\<exists>r. findFreeRoutingTableID links = Inr r \<and> 0 < r \<and> r \<notin> tablesOfVrfs links \<and>
           (\<forall>s. 0 < s \<and> s < r \<longrightarrow> s \<in> tablesOfVrfs links) \<and>
           unat r = (LEAST n. 0 < n \<and> n \<notin> unat ` tablesOfVrfs links) \<and>
           findFreeRoutingTableID (filter isVrf links) = Inr r"
proof (cases "findFreeLoop (tablesOfVrfs links) 1")
  case (Inl e)
  from findFreeLoop_Inl [OF Inl] assms show ?thesis
    by (auto simp: one_le_iff)
next
  case (Inr r)
  from findFreeLoop_Inr [OF Inr]
  have r: "0 < r" "r \<notin> tablesOfVrfs links" "\<forall>s. 0 < s \<and> s < r \<longrightarrow> s \<in> tablesOfVrfs links"
    by (auto simp: one_le_iff)
  have "unat r = (LEAST n. 0 < n \<and> n \<notin> unat ` tablesOfVrfs links)"
    using r by (rule least_unat)
  with r Inr show ?thesis
    by (simp add: findFreeRoutingTableID_def takenTables_eq tablesOfVrfs_filter)
qed

lemma tablesOfVrfs_exLinks: "tablesOfVrfs exLinks = {1, 3}"
  by (simp add: tablesOfVrfs_def exLinks_def)

lemma findFree_exLinks: "findFreeRoutingTableID exLinks = Inr 2"
  by (simp add: findFreeRoutingTableID_def takenTables_eq tablesOfVrfs_exLinks
      findFreeLoop.simps MaxUint32_def)

text \<open>Witness for C5: with tables 1 and 3 in use (and a veth link in the list) the result is 2.\<close>

theorem findFreeRoutingTableID_smallest_free_witness:
  "(0::uint32) < 2 \<and> (2::uint32) < MaxUint32 \<and> 2 \<notin> tablesOfVrfs exLinks \<and>
   findFreeRoutingTableID exLinks = Inr 2 \<and>
   unat (2::uint32) = (LEAST n. 0 < n \<and> n \<notin> unat ` tablesOfVrfs exLinks) \<and>
   findFreeRoutingTableID (filter isVrf exLinks) = Inr 2"
proof -
  have h: "(0::uint32) < 2" "(2::uint32) < MaxUint32" "2 \<notin> tablesOfVrfs exLinks"
    by (simp_all add: MaxUint32_def tablesOfVrfs_exLinks)
  from findFreeRoutingTableID_smallest_free [OF h] findFree_exLinks h show ?thesis
    by auto
qed

lemma tablesOfVrfs_fullLinks: "tablesOfVrfs fullLinks = {t. 0 < t \<and> t < MaxUint32}"
proof -
  have "tablesOfVrfs (map vrfWithTable ns) = of_nat ` set ns" for ns
    by (induction ns) (auto simp: tablesOfVrfs_def vrfWithTable_def)
  then have "tablesOfVrfs fullLinks = of_nat ` {1..<4294967295}"
    by (simp add: fullLinks_def)
  also have "\<dots> = {t::uint32. 0 < t \<and> t < MaxUint32}"
  proof (rule set_eqI, rule iffI)
    fix t :: uint32 assume "t \<in> of_nat ` {1..<4294967295}"
    then obtain n :: nat where n: "t = of_nat n" "1 \<le> n" "n < 4294967295" by auto
    then have "unat t = n" by (simp add: unat_of_nat)
    with n show "t \<in> {t. 0 < t \<and> t < MaxUint32}"
      by (simp add: word_less_nat_alt MaxUint32_def)
  next
    fix t :: uint32 assume "t \<in> {t. 0 < t \<and> t < MaxUint32}"
    then have "1 \<le> unat t" "unat t < 4294967295"
      by (simp_all add: word_less_nat_alt MaxUint32_def Suc_le_eq)
    moreover have "t = of_nat (unat t)" by simp
    ultimately show "t \<in> of_nat ` {1..<4294967295}"
      by (metis atLeastLessThan_iff imageI)
  qed
  finally show ?thesis .
qed

lemma findFree_fullLinks: "findFreeRoutingTableID fullLinks = Inl ErrNoFreeTable"
  unfolding findFreeRoutingTableID_def takenTables_eq
  by (rule findFreeLoop_exhausted) (simp add: tablesOfVrfs_fullLinks one_le_iff)

text \<open>
  Counterexample to C5 as stated (for every link list): when the VRF devices use every table
  from 1 to \<open>2^32 - 2\<close>, the smallest positive integer not in use is \<open>2^32 - 1\<close>, but the loop
  stops before \<open>math.MaxUint32\<close> and the allocator returns its error.
\<close>

theorem findFreeRoutingTableID_smallest_free_counterexample:
  "(LEAST n. 0 < n \<and> n \<notin> unat ` tablesOfVrfs fullLinks) = 4294967295 \<and>
   findFreeRoutingTableID fullLinks = Inl ErrNoFreeTable"
proof -
  have "unat ` tablesOfVrfs fullLinks = {1..<4294967295}"
  proof (rule set_eqI, rule iffI)
    fix n assume "n \<in> unat ` tablesOfVrfs fullLinks"
    then show "n \<in> {1..<4294967295}"
      by (auto simp: tablesOfVrfs_fullLinks word_less_nat_alt MaxUint32_def)
  next
    fix n :: nat assume n: "n \<in> {1..<4294967295}"
    then have "unat (of_nat n :: uint32) = n" by (simp add: unat_of_nat)
    moreover from this n have "(of_nat n :: uint32) \<in> tablesOfVrfs fullLinks"
      by (simp add: tablesOfVrfs_fullLinks word_less_nat_alt MaxUint32_def)
    ultimately show "n \<in> unat ` tablesOfVrfs fullLinks" by (metis imageI)
  qed
  then have "(LEAST n. 0 < n \<and> n \<notin> unat ` tablesOfVrfs fullLinks) = 4294967295"
    by (auto intro!: Least_equality)
  with findFree_fullLinks show ?thesis by simp
qed

text \<open>
  Claim C6, amended. The allocator fails exactly when every table \<open>t\<close> with
  \<open>0 < t < MaxUint32\<close> (that is, 1 to \<open>2^32 - 2\<close>) is used by a VRF device, and succeeds
  exactly when one of these tables is free. The tables 0 and \<open>2^32 - 1\<close> are never tried.
\<close>

theorem findFreeRoutingTableID_fails_iff:
  "(findFreeRoutingTableID links = Inl ErrNoFreeTable \<longleftrightarrow>
      (\<forall>t. 0 < t \<and> t < MaxUint32 \<longrightarrow> t \<in> tablesOfVrfs links)) \<and>
   ((\<exists>r. findFreeRoutingTableID links = Inr r) \<longleftrightarrow>
      (\<exists>t. 0 < t \<and> t < MaxUint32 \<and> t \<notin> tablesOfVrfs links))"
proof (cases "findFreeLoop (tablesOfVrfs links) 1")
  case (Inl e)
  from findFreeLoop_Inl [OF Inl] Inl show ?thesis
    by (auto simp: findFreeRoutingTableID_def takenTables_eq one_le_iff)
next
  case (Inr r)
  from findFreeLoop_Inr [OF Inr] Inr show ?thesis
    by (auto simp: findFreeRoutingTableID_def takenTables_eq one_le_iff)
qed

text \<open>Witness for C6: table 2 is free among the tables of \<open>exLinks\<close>, and the allocator succeeds.\<close>

theorem findFreeRoutingTableID_fails_iff_witness:
  "(\<exists>r. findFreeRoutingTableID exLinks = Inr r) \<and>
   findFreeRoutingTableID exLinks \<noteq> Inl ErrNoFreeTable \<and>
   (2::uint32) \<notin> tablesOfVrfs exLinks"
proof -
  have "(0::uint32) < 2 \<and> (2::uint32) < MaxUint32 \<and> 2 \<notin> tablesOfVrfs exLinks"
    by (simp add: MaxUint32_def tablesOfVrfs_exLinks)
  with findFreeRoutingTableID_fails_iff [of exLinks] show ?thesis
    by auto
qed

text \<open>
  Counterexample to C6 as stated: with the tables 1 to \<open>2^32 - 2\<close> in use the allocator fails,
  although the representable tables \<open>2^32 - 1\<close> and 0 are used by no VRF device.
\<close>

theorem findFreeRoutingTableID_fails_counterexample:
  "findFreeRoutingTableID fullLinks = Inl ErrNoFreeTable \<and>
   MaxUint32 \<notin> tablesOfVrfs fullLinks \<and> 0 \<notin> tablesOfVrfs fullLinks"
  using findFree_fullLinks by (simp add: tablesOfVrfs_fullLinks)

section \<open>Traces of the loops\<close>

text \<open>
  Each function appends its requests to the trace it is given; the lemmas of this section
  describe what one run of a loop appends.
\<close>

lemma call_run:
  "call ev request (k, tr) = (fst (request k), (snd (request k), tr @ [ev (fst (request k))]))"
  by (simp add: call_def split: prod.splits)

lemma getGlobalAddresses_run:
  "getGlobalAddresses K link family (k, tr) =
     (case AddrList K link family k of
        (Inl err, k') \<Rightarrow> (Inl (ErrAddrList (Name (Attrs link)) err),
                          (k', tr @ [EvAddrList link family (Inl err)]))
      | (Inr addresses, k') \<Rightarrow> (Inr (globalOnly addresses),
                          (k', tr @ [EvAddrList link family (Inr addresses)])))"
  by (simp add: getGlobalAddresses_def call_run globalOnly_def SCOPE_UNIVERSE_def
      split: prod.splits sum.splits)

lemma interleave_alt: "interleave (x # xs) (y # ys) = x # y # interleave xs ys"
  by simp

lemma backoff_take:
  "m \<le> 8 \<Longrightarrow> map (\<lambda>n. backoffBase * 2 ^ n) [0..<m] = take m backoffSchedule"
proof -
  assume m: "m \<le> 8"
  have "map (\<lambda>n. backoffBase * 2 ^ n) [0..<8] = backoffSchedule"
    by (simp add: backoffSchedule_def backoffBase_def upt_rec)
  then have "take m backoffSchedule = take m (map (\<lambda>n. backoffBase * 2 ^ n) [0..<8])"
    by (rule arg_cong [OF sym])
  also have "\<dots> = map (\<lambda>n. backoffBase * 2 ^ n) (take m [0..<8])"
    by (rule take_map)
  also from m have "take m [0..<8] = [0..<m]"
    by (simp add: min_def)
  finally show ?thesis by simp
qed

lemma wait_run:
  assumes "waitForHostRoute K vrf intf i toFind j (k, tr) = (res, (k', tr'))" and "j \<le> maxRetries"
  shows "\<exists>rs. rs \<noteq> [] \<and> j + length rs \<le> 9 \<and>
           tr' = tr @ interleave
                  (map (EvRouteListFiltered FAMILY_ALL (hostRouteFilter vrf i toFind)
                          {RT_FILTER_OIF, RT_FILTER_TABLE, RT_FILTER_DST}) rs)
                  (map (\<lambda>n. EvSleep (backoffBase * 2 ^ n)) [j..<j + (length rs - 1)]) \<and>
           (\<forall>r\<in>set (butlast rs). r = Inr []) \<and>
           (case last rs of
              Inl err \<Rightarrow> res = Some (ErrRoutesQuery intf (Table vrf) (IPNet.truncate toFind) err)
            | Inr [] \<Rightarrow> j + length rs = 9 \<and>
                       res = Some (ErrNoHostRoute intf (Table vrf) (IPNet.truncate toFind))
            | Inr (x # xs) \<Rightarrow> res = None)"
  using assms
proof (induction K vrf intf i toFind j "(k, tr)" arbitrary: k tr rule: waitForHostRoute.induct)
  case (1 K vrf intf i toFind j)
  let ?flt = "hostRouteFilter vrf i toFind"
  let ?M = "{RT_FILTER_OIF, RT_FILTER_TABLE, RT_FILTER_DST}"
  let ?q = "EvRouteListFiltered FAMILY_ALL ?flt ?M"
  obtain r k1 where rq: "RouteListFiltered K FAMILY_ALL ?flt ?M k = (r, k1)"
    by (cases "RouteListFiltered K FAMILY_ALL ?flt ?M k")
  have c: "call ?q (RouteListFiltered K FAMILY_ALL ?flt ?M) (k, tr) = (r, (k1, tr @ [?q r]))"
    by (simp add: call_run rq)
  have unfold: "waitForHostRoute K vrf intf i toFind j (k, tr) =
     (case r of
        Inl err \<Rightarrow> (Some (ErrRoutesQuery intf (Table vrf) (IPNet.truncate toFind) err), (k1, tr @ [?q r]))
      | Inr routes \<Rightarrow>
          if length routes \<ge> 1 then (None, (k1, tr @ [?q r]))
          else if j = maxRetries then
            (Some (ErrNoHostRoute intf (Table vrf) (IPNet.truncate toFind)), (k1, tr @ [?q r]))
          else waitForHostRoute K vrf intf i toFind (j + 1)
                 (sleep K (backoffBase * 2 ^ j) (k1, tr @ [?q r])))"
    by (subst waitForHostRoute.simps) (simp add: c "1.prems"(2) split: sum.splits)
  note run = "1.prems"(1) [unfolded unfold]
  show ?case
  proof (cases r)
    case (Inl err)
    with run have "res = Some (ErrRoutesQuery intf (Table vrf) (IPNet.truncate toFind) err)"
      "tr' = tr @ [?q r]"
      by simp_all
    with Inl "1.prems"(2) show ?thesis
      by (intro exI [of _ "[r]"]) (simp add: maxRetries_def)
  next
    case (Inr routes)
    show ?thesis
    proof (cases routes)
      case (Cons x xs)
      with Inr run have "res = None" "tr' = tr @ [?q r]"
        by simp_all
      with Inr Cons "1.prems"(2) show ?thesis
        by (intro exI [of _ "[r]"]) (simp add: maxRetries_def)
    next
      case Nil
      show ?thesis
      proof (cases "j = maxRetries")
        case True
        with Nil Inr run
        have "res = Some (ErrNoHostRoute intf (Table vrf) (IPNet.truncate toFind))" "tr' = tr @ [?q r]"
          by simp_all
        with Inr Nil True show ?thesis
          by (intro exI [of _ "[r]"]) (simp add: maxRetries_def)
      next
        case False
        let ?d = "backoffBase * 2 ^ j"
        from False "1.prems"(2) have j': "j + 1 \<le> maxRetries" by simp
        have sl: "sleep K ?d (k1, tr @ [?q r]) = (Sleep K ?d k1, tr @ [?q r, EvSleep ?d])"
          by (simp add: sleep_def)
        from False Nil Inr run sl
        have rec: "waitForHostRoute K vrf intf i toFind (j + 1) (Sleep K ?d k1, tr @ [?q r, EvSleep ?d])
                     = (res, (k', tr'))"
          by simp
        have "\<exists>rs. rs \<noteq> [] \<and> j + 1 + length rs \<le> 9 \<and>
           tr' = (tr @ [?q r, EvSleep ?d]) @ interleave (map ?q rs)
                  (map (\<lambda>n. EvSleep (backoffBase * 2 ^ n)) [j + 1..<j + 1 + (length rs - 1)]) \<and>
           (\<forall>r\<in>set (butlast rs). r = Inr []) \<and>
           (case last rs of
              Inl err \<Rightarrow> res = Some (ErrRoutesQuery intf (Table vrf) (IPNet.truncate toFind) err)
            | Inr [] \<Rightarrow> j + 1 + length rs = 9 \<and>
                       res = Some (ErrNoHostRoute intf (Table vrf) (IPNet.truncate toFind))
            | Inr (x # xs) \<Rightarrow> res = None)"
        proof -
          from Nil have nl: "\<not> 1 \<le> length routes" by simp
          show ?thesis
            by (rule "1.hyps" [OF "1.prems"(2) c [symmetric] Inr nl False sl rec j'])
        qed
        then obtain rs where rs: "rs \<noteq> []" "j + 1 + length rs \<le> 9"
           "tr' = (tr @ [?q r, EvSleep ?d]) @ interleave (map ?q rs)
                  (map (\<lambda>n. EvSleep (backoffBase * 2 ^ n)) [j + 1..<j + 1 + (length rs - 1)])"
           "\<forall>r\<in>set (butlast rs). r = Inr []"
           "case last rs of
              Inl err \<Rightarrow> res = Some (ErrRoutesQuery intf (Table vrf) (IPNet.truncate toFind) err)
            | Inr [] \<Rightarrow> j + 1 + length rs = 9 \<and>
                       res = Some (ErrNoHostRoute intf (Table vrf) (IPNet.truncate toFind))
            | Inr (x # xs) \<Rightarrow> res = None"
          by blast
        from rs(1) have up: "[j..<j + (length (r # rs) - 1)] = j # [j + 1..<j + 1 + (length rs - 1)]"
          by (cases rs) (simp_all add: upt_rec)
        show ?thesis
        proof (intro exI [of _ "r # rs"] conjI)
          show "r # rs \<noteq> []" by simp
          show "j + length (r # rs) \<le> 9" using rs(2) by simp
          show "tr' = tr @ interleave (map ?q (r # rs))
                  (map (\<lambda>n. EvSleep (backoffBase * 2 ^ n)) [j..<j + (length (r # rs) - 1)])"
            unfolding up using rs(3) by simp
          show "\<forall>r\<in>set (butlast (r # rs)). r = Inr []"
            using rs(1,4) Inr Nil by simp
          show "case last (r # rs) of
              Inl err \<Rightarrow> res = Some (ErrRoutesQuery intf (Table vrf) (IPNet.truncate toFind) err)
            | Inr [] \<Rightarrow> j + length (r # rs) = 9 \<and>
                       res = Some (ErrNoHostRoute intf (Table vrf) (IPNet.truncate toFind))
            | Inr (x # xs) \<Rightarrow> res = None"
            using rs(1,5) by (simp split: sum.splits list.splits)
        qed
      qed
    qed
  qed
qed

lemma addrAdds_append: "addrAdds (xs @ ys) = addrAdds xs @ addrAdds ys"
  by (induction xs rule: addrAdds.induct) simp_all

lemma routeReplaces_append: "routeReplaces (xs @ ys) = routeReplaces xs @ routeReplaces ys"
  by (induction xs rule: routeReplaces.induct) simp_all

lemma set_interleave: "set (interleave xs ys) = set xs \<union> set ys"
  by (induction xs ys rule: interleave.induct) auto

lemma interleave_eq_Nil: "interleave xs ys = [] \<longleftrightarrow> xs = [] \<and> ys = []"
  by (induction xs ys rule: interleave.induct) simp_all

lemma last_interleave:
  "length ys < length xs \<Longrightarrow> last (interleave xs ys) = last xs"
proof (induction xs ys rule: interleave.induct)
  case (3 x xs y ys)
  then have "xs \<noteq> []" by auto
  with 3 show ?case by (simp add: interleave_eq_Nil)
qed simp_all

lemma no_addrAdds: "\<forall>ev\<in>set evs. \<not> isMutation ev \<Longrightarrow> addrAdds evs = []"
  by (induction evs rule: addrAdds.induct) simp_all

lemma no_routeReplaces: "\<forall>ev\<in>set evs. \<not> isMutation ev \<Longrightarrow> routeReplaces evs = []"
  by (induction evs rule: routeReplaces.induct) simp_all

lemma wait_events:
  assumes run: "waitForHostRoute K vrf intf i toFind 0 (k, tr) = (res, (k', tr'))"
  shows "\<exists>evs. tr' = tr @ evs \<and> evs \<noteq> [] \<and>
           (\<forall>ev\<in>set evs. isListOrRepair ev \<and> \<not> isMutation ev) \<and>
           (res = None \<longrightarrow>
              (\<exists>rs. rs \<noteq> [] \<and>
                 EvRouteListFiltered FAMILY_ALL (hostRouteFilter vrf i toFind)
                   {RT_FILTER_OIF, RT_FILTER_TABLE, RT_FILTER_DST} (Inr rs) \<in> set evs)) \<and>
           (\<forall>e. res = Some e \<longrightarrow>
              (\<exists>resp. last evs = EvRouteListFiltered FAMILY_ALL (hostRouteFilter vrf i toFind)
                   {RT_FILTER_OIF, RT_FILTER_TABLE, RT_FILTER_DST} resp \<and>
                 ((\<exists>err. resp = Inl err \<and>
                      e = ErrRoutesQuery intf (Table vrf) (IPNet.truncate toFind) err) \<or>
                  (resp = Inr [] \<and>
                      e = ErrNoHostRoute intf (Table vrf) (IPNet.truncate toFind)))))"
proof -
  let ?q = "EvRouteListFiltered FAMILY_ALL (hostRouteFilter vrf i toFind)
              {RT_FILTER_OIF, RT_FILTER_TABLE, RT_FILTER_DST}"
  from wait_run [OF run] obtain rs where rs: "rs \<noteq> []"
    "tr' = tr @ interleave (map ?q rs) (map (\<lambda>n. EvSleep (backoffBase * 2 ^ n)) [0..<0 + (length rs - 1)])"
    "case last rs of
       Inl err \<Rightarrow> res = Some (ErrRoutesQuery intf (Table vrf) (IPNet.truncate toFind) err)
     | Inr [] \<Rightarrow> 0 + length rs = 9 \<and>
                res = Some (ErrNoHostRoute intf (Table vrf) (IPNet.truncate toFind))
     | Inr (x # xs) \<Rightarrow> res = None"
    by (auto simp: maxRetries_def)
  let ?evs = "interleave (map ?q rs) (map (\<lambda>n. EvSleep (backoffBase * 2 ^ n)) [0..<0 + (length rs - 1)])"
  from rs(1) have lst: "last ?evs = ?q (last rs)"
    by (subst last_interleave) (simp_all add: last_map)
  from rs(1) have mem: "?q (last rs) \<in> set ?evs"
    by (simp add: set_interleave)
  have kinds: "\<forall>ev\<in>set ?evs. isListOrRepair ev \<and> \<not> isMutation ev"
    by (auto simp: set_interleave)
  from rs(1) have ne: "?evs \<noteq> []"
    by (simp add: interleave_eq_Nil)
  show ?thesis
  proof (intro exI [of _ ?evs] conjI)
    show "tr' = tr @ ?evs" by (fact rs(2))
    show "?evs \<noteq> []" by (fact ne)
    show "\<forall>ev\<in>set ?evs. isListOrRepair ev \<and> \<not> isMutation ev" by (fact kinds)
    show "res = None \<longrightarrow> (\<exists>rs'. rs' \<noteq> [] \<and> ?q (Inr rs') \<in> set ?evs)"
      using rs(3) mem by (auto split: sum.splits list.splits)
    show "\<forall>e. res = Some e \<longrightarrow>
              (\<exists>resp. last ?evs = ?q resp \<and>
                 ((\<exists>err. resp = Inl err \<and>
                      e = ErrRoutesQuery intf (Table vrf) (IPNet.truncate toFind) err) \<or>
                  (resp = Inr [] \<and>
                      e = ErrNoHostRoute intf (Table vrf) (IPNet.truncate toFind))))"
      using rs(3) lst by (auto split: sum.splits list.splits)
  qed
qed

lemma missing_Cons_present:
  "list_ex (Addr_Equal a) after \<Longrightarrow> missingAddresses (a # rest) after = missingAddresses rest after"
  by (simp add: missingAddresses_def)

lemma missing_Cons_absent:
  "\<not> list_ex (Addr_Equal a) after \<Longrightarrow>
     missingAddresses (a # rest) after = a # missingAddresses rest after"
  by (simp add: missingAddresses_def)

lemma restore_kinds:
  "restoreAddresses K vrf intf i after before (k, tr) = (res, (k', tr')) \<Longrightarrow>
     \<exists>evs. tr' = tr @ evs \<and> routeReplaces evs = [] \<and> (\<forall>ev\<in>set evs. isListOrRepair ev)"
proof (induction before arbitrary: k tr)
  case Nil
  then show ?case by simp
next
  case (Cons a rest)
  show ?case
  proof (cases "list_ex (Addr_Equal a) after")
    case True
    with Cons.prems have "restoreAddresses K vrf intf i after rest (k, tr) = (res, (k', tr'))"
      by simp
    then show ?thesis by (rule Cons.IH)
  next
    case False
    obtain r0 k1 where add: "AddrAdd K i a k = (r0, k1)"
      by (cases "AddrAdd K i a k")
    let ?add = "EvAddrAdd i a r0"
    show ?thesis
    proof (cases r0)
      case (Some err)
      with Cons.prems False add have "tr' = tr @ [?add]"
        by (simp add: call_run)
      then show ?thesis by simp
    next
      case None
      obtain resw k2 tr2 where w: "waitForHostRoute K vrf intf i a 0 (k1, tr @ [?add]) = (resw, (k2, tr2))"
        by (metis prod_cases3)
      from wait_events [OF w] obtain evw where evw: "tr2 = (tr @ [?add]) @ evw"
        "\<forall>ev\<in>set evw. isListOrRepair ev \<and> \<not> isMutation ev"
        by blast
      then have nrr: "routeReplaces evw = []"
        by (simp add: no_routeReplaces)
      show ?thesis
      proof (cases resw)
        case (Some e)
        with Cons.prems False add None w have "tr' = tr2"
          by (simp add: call_run)
        with evw nrr None show ?thesis
          by (rule_tac x = "?add # evw" in exI) simp
      next
        case None': None
        with Cons.prems False add None w
        have "restoreAddresses K vrf intf i after rest (k2, tr2) = (res, (k', tr'))"
          by (simp add: call_run)
        from Cons.IH [OF this] obtain evs where evs: "tr' = tr2 @ evs" "routeReplaces evs = []"
          "\<forall>ev\<in>set evs. isListOrRepair ev"
          by blast
        with evw nrr None show ?thesis
          by (rule_tac x = "?add # evw @ evs" in exI) (auto simp: routeReplaces_append)
      qed
    qed
  qed
qed

lemma restore_success:
  "restoreAddresses K vrf intf i after before (k, tr) = (None, (k', tr')) \<Longrightarrow>
     \<exists>evs. tr' = tr @ evs \<and>
       addrAdds evs = map (\<lambda>a. (i, a, None)) (missingAddresses before after) \<and>
       (\<forall>a\<in>set (missingAddresses before after).
          \<exists>p q rs. evs = p @ EvAddrAdd i a None # q \<and> rs \<noteq> [] \<and>
            EvRouteListFiltered FAMILY_ALL (hostRouteFilter vrf i a)
              {RT_FILTER_OIF, RT_FILTER_TABLE, RT_FILTER_DST} (Inr rs) \<in> set q)"
proof (induction before arbitrary: k tr)
  case Nil
  then show ?case by (simp add: missingAddresses_def)
next
  case (Cons a rest)
  show ?case
  proof (cases "list_ex (Addr_Equal a) after")
    case True
    with Cons.prems have "restoreAddresses K vrf intf i after rest (k, tr) = (None, (k', tr'))"
      by simp
    from Cons.IH [OF this] True show ?thesis
      by (simp add: missing_Cons_present)
  next
    case False
    obtain r0 k1 where add: "AddrAdd K i a k = (r0, k1)"
      by (cases "AddrAdd K i a k")
    let ?add = "EvAddrAdd i a None"
    let ?M = "{RT_FILTER_OIF, RT_FILTER_TABLE, RT_FILTER_DST}"
    from Cons.prems False add have r0: "r0 = None"
      by (cases r0) (simp_all add: call_run)
    obtain resw k2 tr2 where w: "waitForHostRoute K vrf intf i a 0 (k1, tr @ [?add]) = (resw, (k2, tr2))"
      by (metis prod_cases3)
    from Cons.prems False add r0 w have resw: "resw = None"
      by (cases resw) (simp_all add: call_run)
    from wait_events [OF w] resw obtain evw rs where evw: "tr2 = (tr @ [?add]) @ evw"
      "\<forall>ev\<in>set evw. isListOrRepair ev \<and> \<not> isMutation ev" "rs \<noteq> []"
      "EvRouteListFiltered FAMILY_ALL (hostRouteFilter vrf i a) ?M (Inr rs) \<in> set evw"
      by blast
    then have naa: "addrAdds evw = []"
      by (simp add: no_addrAdds)
    from Cons.prems False add r0 w resw
    have "restoreAddresses K vrf intf i after rest (k2, tr2) = (None, (k', tr'))"
      by (simp add: call_run)
    from Cons.IH [OF this] obtain evs where evs: "tr' = tr2 @ evs"
      "addrAdds evs = map (\<lambda>a. (i, a, None)) (missingAddresses rest after)"
      "\<forall>a\<in>set (missingAddresses rest after).
          \<exists>p q rs. evs = p @ EvAddrAdd i a None # q \<and> rs \<noteq> [] \<and>
            EvRouteListFiltered FAMILY_ALL (hostRouteFilter vrf i a) ?M (Inr rs) \<in> set q"
      by blast
    show ?thesis
    proof (rule exI [of _ "?add # evw @ evs"], intro conjI ballI)
      show "tr' = tr @ ?add # evw @ evs" using evs(1) evw(1) by simp
      show "addrAdds (?add # evw @ evs) = map (\<lambda>a. (i, a, None)) (missingAddresses (a # rest) after)"
        using False evs(2) naa by (simp add: missing_Cons_absent addrAdds_append)
    next
      fix b assume "b \<in> set (missingAddresses (a # rest) after)"
      with False have b: "b = a \<or> b \<in> set (missingAddresses rest after)"
        by (simp add: missing_Cons_absent)
      show "\<exists>p q rs. ?add # evw @ evs = p @ EvAddrAdd i b None # q \<and> rs \<noteq> [] \<and>
            EvRouteListFiltered FAMILY_ALL (hostRouteFilter vrf i b) ?M (Inr rs) \<in> set q"
      proof (cases "b = a")
        case True
        with evw(3,4) show ?thesis
          by (rule_tac x = "[]" in exI, rule_tac x = "evw @ evs" in exI, rule_tac x = rs in exI) simp
      next
        case False
        with b evs(3) obtain p q rs' where "evs = p @ EvAddrAdd i b None # q" "rs' \<noteq> []"
          "EvRouteListFiltered FAMILY_ALL (hostRouteFilter vrf i b) ?M (Inr rs') \<in> set q"
          by blast
        then show ?thesis
          by (rule_tac x = "?add # evw @ p" in exI, rule_tac x = q in exI, rule_tac x = rs' in exI) simp
      qed
    qed
  qed
qed

lemma restore_failure:
  "restoreAddresses K vrf intf i after before (k, tr) = (Some e, (k', tr')) \<Longrightarrow>
     \<exists>evs n r. tr' = tr @ evs \<and> evs \<noteq> [] \<and> n < length (missingAddresses before after) \<and>
       addrAdds evs = map (\<lambda>a. (i, a, None)) (take n (missingAddresses before after)) @
                        [(i, missingAddresses before after ! n, r)] \<and>
       (case r of
          Some err \<Rightarrow>
            e = ErrRestoreAddr (missingAddresses before after ! n) intf (Name vrf) err \<and>
            last evs = EvAddrAdd i (missingAddresses before after ! n) (Some err)
        | None \<Rightarrow>
            (\<exists>resp. last evs = EvRouteListFiltered FAMILY_ALL
                        (hostRouteFilter vrf i (missingAddresses before after ! n))
                        {RT_FILTER_OIF, RT_FILTER_TABLE, RT_FILTER_DST} resp \<and>
               ((\<exists>err. resp = Inl err \<and>
                    e = ErrRoutesQuery intf (Table vrf)
                          (IPNet.truncate (missingAddresses before after ! n)) err) \<or>
                (resp = Inr [] \<and>
                    e = ErrNoHostRoute intf (Table vrf)
                          (IPNet.truncate (missingAddresses before after ! n))))))"
proof (induction before arbitrary: k tr)
  case Nil
  then show ?case by simp
next
  case (Cons a rest)
  show ?case
  proof (cases "list_ex (Addr_Equal a) after")
    case True
    with Cons.prems have "restoreAddresses K vrf intf i after rest (k, tr) = (Some e, (k', tr'))"
      by simp
    then show ?thesis
      unfolding missing_Cons_present [OF True] by (rule Cons.IH)
  next
    case False
    let ?ms = "missingAddresses rest after"
    from False have ms: "missingAddresses (a # rest) after = a # ?ms"
      by (rule missing_Cons_absent)
    let ?M = "{RT_FILTER_OIF, RT_FILTER_TABLE, RT_FILTER_DST}"
    obtain r0 k1 where add: "AddrAdd K i a k = (r0, k1)"
      by (cases "AddrAdd K i a k")
    show ?thesis
    proof (cases r0)
      case (Some err)
      with Cons.prems False add have "tr' = tr @ [EvAddrAdd i a (Some err)]"
        "e = ErrRestoreAddr a intf (Name vrf) err"
        by (simp_all add: call_run)
      then show ?thesis unfolding ms
        by (rule_tac x = "[EvAddrAdd i a (Some err)]" in exI, rule_tac x = 0 in exI,
            rule_tac x = "Some err" in exI) simp
    next
      case None
      let ?add = "EvAddrAdd i a None"
      obtain resw k2 tr2 where w: "waitForHostRoute K vrf intf i a 0 (k1, tr @ [?add]) = (resw, (k2, tr2))"
        by (metis prod_cases3)
      from wait_events [OF w] obtain evw where evw: "tr2 = (tr @ [?add]) @ evw" "evw \<noteq> []"
        "\<forall>ev\<in>set evw. isListOrRepair ev \<and> \<not> isMutation ev"
        "\<forall>e. resw = Some e \<longrightarrow>
              (\<exists>resp. last evw = EvRouteListFiltered FAMILY_ALL (hostRouteFilter vrf i a) ?M resp \<and>
                 ((\<exists>err. resp = Inl err \<and> e = ErrRoutesQuery intf (Table vrf) (IPNet.truncate a) err) \<or>
                  (resp = Inr [] \<and> e = ErrNoHostRoute intf (Table vrf) (IPNet.truncate a))))"
        by blast
      then have naa: "addrAdds evw = []"
        by (simp add: no_addrAdds)
      show ?thesis
      proof (cases resw)
        case (Some e')
        with Cons.prems False add None w have eq: "tr' = tr2" "e' = e"
          by (simp_all add: call_run)
        with evw(4) Some obtain resp where resp:
          "last evw = EvRouteListFiltered FAMILY_ALL (hostRouteFilter vrf i a) ?M resp"
          "(\<exists>err. resp = Inl err \<and> e = ErrRoutesQuery intf (Table vrf) (IPNet.truncate a) err) \<or>
           (resp = Inr [] \<and> e = ErrNoHostRoute intf (Table vrf) (IPNet.truncate a))"
          by blast
        show ?thesis unfolding ms
        proof (rule_tac x = "?add # evw" in exI, rule_tac x = 0 in exI, rule_tac x = None in exI,
            intro conjI)
          show "tr' = tr @ ?add # evw" using eq evw(1) by simp
          show "?add # evw \<noteq> []" by simp
          show "0 < length (a # ?ms)" by simp
          show "addrAdds (?add # evw) = map (\<lambda>a. (i, a, None)) (take 0 (a # ?ms)) @ [(i, (a # ?ms) ! 0, None)]"
            using naa by simp
          show "case None of
            Some err \<Rightarrow> e = ErrRestoreAddr ((a # ?ms) ! 0) intf (Name vrf) err \<and>
              last (?add # evw) = EvAddrAdd i ((a # ?ms) ! 0) (Some err)
          | None \<Rightarrow> \<exists>resp. last (?add # evw) =
                EvRouteListFiltered FAMILY_ALL (hostRouteFilter vrf i ((a # ?ms) ! 0)) ?M resp \<and>
               ((\<exists>err. resp = Inl err \<and>
                    e = ErrRoutesQuery intf (Table vrf) (IPNet.truncate ((a # ?ms) ! 0)) err) \<or>
                (resp = Inr [] \<and>
                    e = ErrNoHostRoute intf (Table vrf) (IPNet.truncate ((a # ?ms) ! 0))))"
            using resp evw(2) by simp
        qed
      next
        case None': None
        with Cons.prems False add None w
        have "restoreAddresses K vrf intf i after rest (k2, tr2) = (Some e, (k', tr'))"
          by (simp add: call_run)
        from Cons.IH [OF this] obtain evs n r where evs: "tr' = tr2 @ evs" "evs \<noteq> []"
          "n < length ?ms"
          "addrAdds evs = map (\<lambda>a. (i, a, None)) (take n ?ms) @ [(i, ?ms ! n, r)]"
          "case r of
             Some err \<Rightarrow> e = ErrRestoreAddr (?ms ! n) intf (Name vrf) err \<and>
               last evs = EvAddrAdd i (?ms ! n) (Some err)
           | None \<Rightarrow> \<exists>resp. last evs =
                EvRouteListFiltered FAMILY_ALL (hostRouteFilter vrf i (?ms ! n)) ?M resp \<and>
               ((\<exists>err. resp = Inl err \<and>
                    e = ErrRoutesQuery intf (Table vrf) (IPNet.truncate (?ms ! n)) err) \<or>
                (resp = Inr [] \<and>
                    e = ErrNoHostRoute intf (Table vrf) (IPNet.truncate (?ms ! n))))"
          by blast
        show ?thesis unfolding ms
        proof (rule_tac x = "?add # evw @ evs" in exI, rule_tac x = "Suc n" in exI,
            rule_tac x = r in exI, intro conjI)
          show "tr' = tr @ ?add # evw @ evs" using evs(1) evw(1) by simp
          show "?add # evw @ evs \<noteq> []" by simp
          show "Suc n < length (a # ?ms)" using evs(3) by simp
          show "addrAdds (?add # evw @ evs) =
                  map (\<lambda>a. (i, a, None)) (take (Suc n) (a # ?ms)) @ [(i, (a # ?ms) ! Suc n, r)]"
            using naa evs(4) by (simp add: addrAdds_append)
          show "case r of
            Some err \<Rightarrow> e = ErrRestoreAddr ((a # ?ms) ! Suc n) intf (Name vrf) err \<and>
              last (?add # evw @ evs) = EvAddrAdd i ((a # ?ms) ! Suc n) (Some err)
          | None \<Rightarrow> \<exists>resp. last (?add # evw @ evs) =
                EvRouteListFiltered FAMILY_ALL (hostRouteFilter vrf i ((a # ?ms) ! Suc n)) ?M resp \<and>
               ((\<exists>err. resp = Inl err \<and>
                    e = ErrRoutesQuery intf (Table vrf) (IPNet.truncate ((a # ?ms) ! Suc n)) err) \<or>
                (resp = Inr [] \<and>
                    e = ErrNoHostRoute intf (Table vrf) (IPNet.truncate ((a # ?ms) ! Suc n))))"
            using evs(2,5) by (cases r) simp_all
        qed
      qed
    qed
  qed
qed

lemma replay_run:
  "replayRoutes K vrf routes (k, tr) = (res, (k', tr')) \<Longrightarrow>
     \<exists>evs. tr' = tr @ evs \<and> addrAdds evs = [] \<and> (\<forall>ev\<in>set evs. isListOrRepair ev) \<and>
       (res = None \<longrightarrow> routeReplaces evs = map (\<lambda>r. (retable vrf r, None)) routes) \<and>
       (\<forall>e. res = Some e \<longrightarrow>
          (\<exists>n err. n < length routes \<and>
             routeReplaces evs = map (\<lambda>r. (retable vrf r, None)) (take n routes) @
                                   [(retable vrf (routes ! n), Some err)] \<and>
             e = ErrRouteReplace (retable vrf (routes ! n)) err \<and>
             last evs = EvRouteReplace (retable vrf (routes ! n)) (Some err) \<and> evs \<noteq> []))"
proof (induction routes arbitrary: k tr)
  case Nil
  then show ?case by auto
next
  case (Cons route rest)
  let ?r = "retable vrf route"
  obtain r0 k1 where rep: "RouteReplace K ?r k = (r0, k1)"
    by (cases "RouteReplace K ?r k")
  show ?case
  proof (cases r0)
    case (Some err)
    with Cons.prems rep have "tr' = tr @ [EvRouteReplace ?r (Some err)]"
      "res = Some (ErrRouteReplace ?r err)"
      by (simp_all add: call_run retable_def Let_def)
    then show ?thesis
      by (rule_tac x = "[EvRouteReplace ?r (Some err)]" in exI) (auto intro!: exI [of _ 0])
  next
    case None
    with Cons.prems rep
    have "replayRoutes K vrf rest (k1, tr @ [EvRouteReplace ?r None]) = (res, (k', tr'))"
      by (simp add: call_run retable_def Let_def)
    from Cons.IH [OF this] obtain evs where evs: "tr' = (tr @ [EvRouteReplace ?r None]) @ evs"
      "addrAdds evs = []" "\<forall>ev\<in>set evs. isListOrRepair ev"
      "res = None \<longrightarrow> routeReplaces evs = map (\<lambda>r. (retable vrf r, None)) rest"
      "\<forall>e. res = Some e \<longrightarrow>
          (\<exists>n err. n < length rest \<and>
             routeReplaces evs = map (\<lambda>r. (retable vrf r, None)) (take n rest) @
                                   [(retable vrf (rest ! n), Some err)] \<and>
             e = ErrRouteReplace (retable vrf (rest ! n)) err \<and>
             last evs = EvRouteReplace (retable vrf (rest ! n)) (Some err) \<and> evs \<noteq> [])"
      by blast
    show ?thesis
    proof (rule_tac x = "EvRouteReplace ?r None # evs" in exI, intro conjI allI impI)
      show "tr' = tr @ EvRouteReplace ?r None # evs" using evs(1) by simp
      show "addrAdds (EvRouteReplace ?r None # evs) = []" using evs(2) by simp
      show "\<forall>ev\<in>set (EvRouteReplace ?r None # evs). isListOrRepair ev" using evs(3) by simp
    next
      assume "res = None"
      with evs(4) show "routeReplaces (EvRouteReplace ?r None # evs) =
          map (\<lambda>r. (retable vrf r, None)) (route # rest)"
        by simp
    next
      fix e assume "res = Some e"
      with evs(5) obtain n err where n: "n < length rest"
        "routeReplaces evs = map (\<lambda>r. (retable vrf r, None)) (take n rest) @
                                   [(retable vrf (rest ! n), Some err)]"
        "e = ErrRouteReplace (retable vrf (rest ! n)) err"
        "last evs = EvRouteReplace (retable vrf (rest ! n)) (Some err)" "evs \<noteq> []"
        by blast
      then show "\<exists>n err. n < length (route # rest) \<and>
             routeReplaces (EvRouteReplace ?r None # evs) =
               map (\<lambda>r. (retable vrf r, None)) (take n (route # rest)) @
                                   [(retable vrf ((route # rest) ! n), Some err)] \<and>
             e = ErrRouteReplace (retable vrf ((route # rest) ! n)) err \<and>
             last (EvRouteReplace ?r None # evs) =
               EvRouteReplace (retable vrf ((route # rest) ! n)) (Some err) \<and>
             EvRouteReplace ?r None # evs \<noteq> []"
        by (rule_tac x = "Suc n" in exI, rule_tac x = err in exI) simp
    qed
  qed
qed

section \<open>What the repair phase leaves in place\<close>

lemma wait_survives:
  "survivesRepair K P \<Longrightarrow>
   waitForHostRoute K vrf intf i toFind j (k, tr) = (res, (k', tr')) \<Longrightarrow> P k \<Longrightarrow> P k'"
proof (induction K vrf intf i toFind j "(k, tr)" arbitrary: k tr rule: waitForHostRoute.induct)
  case (1 K vrf intf i toFind j)
  let ?flt = "hostRouteFilter vrf i toFind"
  let ?M = "{RT_FILTER_OIF, RT_FILTER_TABLE, RT_FILTER_DST}"
  let ?q = "EvRouteListFiltered FAMILY_ALL ?flt ?M"
  obtain r k1 where rq: "RouteListFiltered K FAMILY_ALL ?flt ?M k = (r, k1)"
    by (cases "RouteListFiltered K FAMILY_ALL ?flt ?M k")
  have c: "call ?q (RouteListFiltered K FAMILY_ALL ?flt ?M) (k, tr) = (r, (k1, tr @ [?q r]))"
    by (simp add: call_run rq)
  from "1.prems"(3) rq "1.prems"(1) have p1: "P k1"
    unfolding survivesRepair_def by (metis snd_conv)
  show ?case
  proof (cases "j \<le> maxRetries")
    case False
    with "1.prems" show ?thesis
      by (simp add: waitForHostRoute.simps [of K vrf intf i toFind j])
  next
    case le: True
    have unfold: "waitForHostRoute K vrf intf i toFind j (k, tr) =
     (case r of
        Inl err \<Rightarrow> (Some (ErrRoutesQuery intf (Table vrf) (IPNet.truncate toFind) err), (k1, tr @ [?q r]))
      | Inr routes \<Rightarrow>
          if length routes \<ge> 1 then (None, (k1, tr @ [?q r]))
          else if j = maxRetries then
            (Some (ErrNoHostRoute intf (Table vrf) (IPNet.truncate toFind)), (k1, tr @ [?q r]))
          else waitForHostRoute K vrf intf i toFind (j + 1)
                 (sleep K (backoffBase * 2 ^ j) (k1, tr @ [?q r])))"
      by (subst waitForHostRoute.simps) (simp add: c le split: sum.splits)
    note run = "1.prems"(2) [unfolded unfold]
    show ?thesis
    proof (cases r)
      case (Inl err)
      with run p1 show ?thesis by simp
    next
      case (Inr routes)
      show ?thesis
      proof (cases "1 \<le> length routes \<or> j = maxRetries")
        case True
        with Inr run p1 show ?thesis by (auto split: if_splits)
      next
        case False
        let ?d = "backoffBase * 2 ^ j"
        have sl: "sleep K ?d (k1, tr @ [?q r]) = (Sleep K ?d k1, tr @ [?q r, EvSleep ?d])"
          by (simp add: sleep_def)
        from False Inr run sl
        have rec: "waitForHostRoute K vrf intf i toFind (j + 1) (Sleep K ?d k1, tr @ [?q r, EvSleep ?d])
                     = (res, (k', tr'))"
          by simp
        from p1 "1.prems"(1) have p2: "P (Sleep K ?d k1)"
          unfolding survivesRepair_def by blast
        from False have nl: "\<not> 1 \<le> length routes" and nm: "j \<noteq> maxRetries" by simp_all
        show ?thesis
          by (rule "1.hyps" [OF le c [symmetric] Inr nl nm sl "1.prems"(1) rec p2])
      qed
    qed
  qed
qed

lemma restore_survives:
  assumes s: "survivesRepair K P"
  shows "restoreAddresses K vrf intf i after before (k, tr) = (res, (k', tr')) \<Longrightarrow> P k \<Longrightarrow> P k'"
proof (induction before arbitrary: k tr)
  case Nil
  then show ?case by simp
next
  case (Cons a rest)
  show ?case
  proof (cases "list_ex (Addr_Equal a) after")
    case True
    with Cons.prems have "restoreAddresses K vrf intf i after rest (k, tr) = (res, (k', tr'))"
      by simp
    then show ?thesis using Cons.prems(2) by (rule Cons.IH)
  next
    case False
    obtain r0 k1 where add: "AddrAdd K i a k = (r0, k1)"
      by (cases "AddrAdd K i a k")
    from s Cons.prems(2) add have p1: "P k1"
      unfolding survivesRepair_def by (metis snd_conv)
    show ?thesis
    proof (cases r0)
      case (Some err)
      with Cons.prems False add p1 show ?thesis
        by (simp add: call_run)
    next
      case None
      obtain resw k2 tr2 where w:
        "waitForHostRoute K vrf intf i a 0 (k1, tr @ [EvAddrAdd i a None]) = (resw, (k2, tr2))"
        by (metis prod_cases3)
      from wait_survives [OF s w p1] have p2: "P k2" .
      show ?thesis
      proof (cases resw)
        case (Some e)
        with Cons.prems False add None w p2 show ?thesis
          by (simp add: call_run)
      next
        case None': None
        with Cons.prems False add None w
        have "restoreAddresses K vrf intf i after rest (k2, tr2) = (res, (k', tr'))"
          by (simp add: call_run)
        then show ?thesis using p2 by (rule Cons.IH)
      qed
    qed
  qed
qed

lemma replay_survives:
  assumes s: "survivesRepair K P"
  shows "replayRoutes K vrf routes (k, tr) = (res, (k', tr')) \<Longrightarrow> P k \<Longrightarrow> P k'"
proof (induction routes arbitrary: k tr)
  case Nil
  then show ?case by simp
next
  case (Cons route rest)
  let ?r = "retable vrf route"
  obtain r0 k1 where rep: "RouteReplace K ?r k = (r0, k1)"
    by (cases "RouteReplace K ?r k")
  from s Cons.prems(2) rep have p1: "P k1"
    unfolding survivesRepair_def by (metis snd_conv)
  show ?case
  proof (cases r0)
    case (Some err)
    with Cons.prems rep p1 show ?thesis
      by (simp add: call_run retable_def Let_def)
  next
    case None
    with Cons.prems rep
    have "replayRoutes K vrf rest (k1, tr @ [EvRouteReplace ?r None]) = (res, (k', tr'))"
      by (simp add: call_run retable_def Let_def)
    then show ?thesis using p1 by (rule Cons.IH)
  qed
qed

lemma addInterface_after_master:
  assumes "LinkByName K intf k = (Inr i, k1)" and "MasterIndex (Attrs i) = 0"
    and "AddrList K i FAMILY_V6 k1 = (Inr ab, k2)"
    and "RouteListFiltered K FAMILY_ALL (snapshotFilter i) {RT_FILTER_OIF, RT_FILTER_SCOPE} k2
           = (Inr listed, k3)"
    and "LinkSetMaster K i (LinkVrf vrf) k3 = (None, k4)"
  shows "addInterface K vrf intf (k, []) =
     (case AddrList K i FAMILY_V6 k4 of
        (Inl err, k5) \<Rightarrow>
          (Some (ErrAddrsAfter (ErrAddrList (Name (Attrs i)) err)),
           (k5, [EvLinkByName intf (Inr i), EvAddrList i FAMILY_V6 (Inr ab),
                 EvRouteListFiltered FAMILY_ALL (snapshotFilter i)
                   {RT_FILTER_OIF, RT_FILTER_SCOPE} (Inr listed),
                 EvLinkSetMaster i (LinkVrf vrf) None, EvAddrList i FAMILY_V6 (Inl err)]))
      | (Inr aa, k5) \<Rightarrow>
          (case restoreAddresses K vrf intf i (globalOnly aa) (globalOnly ab)
                  (k5, [EvLinkByName intf (Inr i), EvAddrList i FAMILY_V6 (Inr ab),
                        EvRouteListFiltered FAMILY_ALL (snapshotFilter i)
                          {RT_FILTER_OIF, RT_FILTER_SCOPE} (Inr listed),
                        EvLinkSetMaster i (LinkVrf vrf) None, EvAddrList i FAMILY_V6 (Inr aa)]) of
             (Some err, w6) \<Rightarrow> (Some err, w6)
           | (None, w6) \<Rightarrow> replayRoutes K vrf (filter (\<lambda>route. Src route \<noteq> None) listed) w6))"
  using assms
  by (simp add: addInterface_def call_run getGlobalAddresses_run
      split: prod.splits sum.splits del: not_None_eq)

section \<open>The convergence wait\<close>

text \<open>Unfolding sets for the concrete runs.\<close>

lemmas sim_defs = simK_def sim0_def sim1_def simLookup_def eth1_def exLinks_def vrfBlue_def
  addrGlobal_def addrLinkLocal_def routeDefault_def routeNoSrc_def routeMatches_def
  simHostRoute_def simTable_def simSetMaster_def simSetIndex_def
  LinkAttrs.truncate_def IPNet.truncate_def

lemmas model_defs = call_def sleep_def getGlobalAddresses_def SCOPE_UNIVERSE_def snapshotFilter_def
  hostRouteFilter_def emptyRoute_def Addr_Equal_def maxRetries_def backoffBase_def Millisecond_def
  Let_def

text \<open>
  Claim C2. A wait that starts at \<open>retryCount = 0\<close> issues between one and nine route
  queries (the answers \<open>rs\<close>), every one for all families with the filter "destination =
  the restored address with a 16-byte \<open>0xff\<close> mask (/128), table = the VRF's table, link index
  = the interface" and the mask OIF, TABLE, DST. Queries and sleeps alternate, and the
  sleeps are the first \<open>length rs - 1\<close> entries of 10, 20, 40, 80, 160, 320, 640, 1280 ms.
  Every query but the last found no route; the wait succeeds when the last query finds at
  least one route; when the last query finds none it was the ninth, and the error names
  the interface, the table and the destination. (A query that itself fails ends the wait
  with the query's error, wrapped with the same three names.)
\<close>

theorem waitForHostRoute_attempts:
  assumes "waitForHostRoute K vrf intf i toFind 0 (k, []) = (res, (k', evs))"
  shows "\<exists>rs. 1 \<le> length rs \<and> length rs \<le> 9 \<and>
           evs = interleave
                  (map (EvRouteListFiltered FAMILY_ALL
                          \<lparr>LinkIndex = Index (Attrs i), Scope = 0,
                           Dst = Some \<lparr>IP = IP toFind, Mask = replicate 16 0xff\<rparr>,
                           Src = None, Gw = None, Protocol = 0, Priority = 0,
                           RouteTable = uint (Table vrf)\<rparr>
                          {RT_FILTER_OIF, RT_FILTER_TABLE, RT_FILTER_DST}) rs)
                  (map EvSleep (take (length rs - 1) backoffSchedule)) \<and>
           (\<forall>r\<in>set (butlast rs). r = Inr []) \<and>
           (case last rs of
              Inl err \<Rightarrow> res = Some (ErrRoutesQuery intf (Table vrf) (IPNet.truncate toFind) err)
            | Inr [] \<Rightarrow> length rs = 9 \<and>
                       res = Some (ErrNoHostRoute intf (Table vrf) (IPNet.truncate toFind))
            | Inr (x # xs) \<Rightarrow> res = None)"
proof -
  have flt: "hostRouteFilter vrf i toFind =
      \<lparr>LinkIndex = Index (Attrs i), Scope = 0,
       Dst = Some \<lparr>IP = IP toFind, Mask = replicate 16 0xff\<rparr>,
       Src = None, Gw = None, Protocol = 0, Priority = 0, RouteTable = uint (Table vrf)\<rparr>"
    by (simp add: hostRouteFilter_def emptyRoute_def)
  from wait_run [OF assms] obtain rs where rs: "rs \<noteq> []" "0 + length rs \<le> 9"
    "evs = [] @ interleave
             (map (EvRouteListFiltered FAMILY_ALL (hostRouteFilter vrf i toFind)
                     {RT_FILTER_OIF, RT_FILTER_TABLE, RT_FILTER_DST}) rs)
             (map (\<lambda>n. EvSleep (backoffBase * 2 ^ n)) [0..<0 + (length rs - 1)])"
    "\<forall>r\<in>set (butlast rs). r = Inr []"
    "case last rs of
       Inl err \<Rightarrow> res = Some (ErrRoutesQuery intf (Table vrf) (IPNet.truncate toFind) err)
     | Inr [] \<Rightarrow> 0 + length rs = 9 \<and>
                res = Some (ErrNoHostRoute intf (Table vrf) (IPNet.truncate toFind))
     | Inr (x # xs) \<Rightarrow> res = None"
    by (auto simp: maxRetries_def)
  from rs(2) have le: "length rs - 1 \<le> 8" by simp
  have sl: "map (\<lambda>n. EvSleep (backoffBase * 2 ^ n)) [0..<0 + (length rs - 1)] =
            map EvSleep (take (length rs - 1) backoffSchedule)"
    using backoff_take [OF le, symmetric] by (simp add: comp_def)
  show ?thesis
  proof (rule exI [of _ rs], intro conjI)
    show "1 \<le> length rs" using rs(1) by (cases rs) simp_all
    show "length rs \<le> 9" using rs(2) by simp
    show "evs = interleave
                  (map (EvRouteListFiltered FAMILY_ALL
                          \<lparr>LinkIndex = Index (Attrs i), Scope = 0,
                           Dst = Some \<lparr>IP = IP toFind, Mask = replicate 16 0xff\<rparr>,
                           Src = None, Gw = None, Protocol = 0, Priority = 0,
                           RouteTable = uint (Table vrf)\<rparr>
                          {RT_FILTER_OIF, RT_FILTER_TABLE, RT_FILTER_DST}) rs)
                  (map EvSleep (take (length rs - 1) backoffSchedule))"
      using rs(3) unfolding sl flt by simp
    show "\<forall>r\<in>set (butlast rs). r = Inr []" by (fact rs(4))
    show "case last rs of
              Inl err \<Rightarrow> res = Some (ErrRoutesQuery intf (Table vrf) (IPNet.truncate toFind) err)
            | Inr [] \<Rightarrow> length rs = 9 \<and>
                       res = Some (ErrNoHostRoute intf (Table vrf) (IPNet.truncate toFind))
            | Inr (x # xs) \<Rightarrow> res = None"
      using rs(5) by (simp split: sum.splits list.splits)
  qed
qed

text \<open>In \<open>sim0\<close> the address has not been re-added, so no host route ever appears.\<close>

lemma sim_wait_timeout:
  "fst (waitForHostRoute simK vrfBlue ''eth1'' eth1 addrGlobal 0 (sim0, [])) =
     Some (ErrNoHostRoute ''eth1'' 2 (IPNet.truncate addrGlobal))"
  by (simp add: waitForHostRoute.simps sim_defs model_defs)

lemma sim_wait_sleeps:
  "[d. EvSleep d \<leftarrow> snd (snd (waitForHostRoute simK vrfBlue ''eth1'' eth1 addrGlobal 0 (sim0, [])))] =
     [10000000, 20000000, 40000000, 80000000, 160000000, 320000000, 640000000, 1280000000]"
  by (simp add: waitForHostRoute.simps sim_defs model_defs)

text \<open>
  Witness for C2: the run in \<open>sim0\<close> makes nine queries, sleeps the whole schedule and
  returns the timeout error for \<open>eth1\<close>, table 2 and \<open>2001:db8::10/64\<close>.
\<close>

theorem waitForHostRoute_attempts_witness:
  "\<exists>rs. length rs = 9 \<and>
      snd (snd (waitForHostRoute simK vrfBlue ''eth1'' eth1 addrGlobal 0 (sim0, []))) =
        interleave
          (map (EvRouteListFiltered FAMILY_ALL
                  \<lparr>LinkIndex = 3, Scope = 0,
                   Dst = Some \<lparr>IP = IP addrGlobal, Mask = replicate 16 0xff\<rparr>,
                   Src = None, Gw = None, Protocol = 0, Priority = 0, RouteTable = 2\<rparr>
                  {RT_FILTER_OIF, RT_FILTER_TABLE, RT_FILTER_DST}) rs)
          (map EvSleep backoffSchedule) \<and>
      fst (waitForHostRoute simK vrfBlue ''eth1'' eth1 addrGlobal 0 (sim0, [])) =
        Some (ErrNoHostRoute ''eth1'' 2 (IPNet.truncate addrGlobal))"
proof -
  obtain res k' evs where run:
    "waitForHostRoute simK vrfBlue ''eth1'' eth1 addrGlobal 0 (sim0, []) = (res, (k', evs))"
    by (metis prod_cases3)
  with sim_wait_timeout have res: "res = Some (ErrNoHostRoute ''eth1'' 2 (IPNet.truncate addrGlobal))"
    by simp
  from waitForHostRoute_attempts [OF run] obtain rs where rs:
    "evs = interleave
             (map (EvRouteListFiltered FAMILY_ALL
                     \<lparr>LinkIndex = Index (Attrs eth1), Scope = 0,
                      Dst = Some \<lparr>IP = IP addrGlobal, Mask = replicate 16 0xff\<rparr>,
                      Src = None, Gw = None, Protocol = 0, Priority = 0,
                      RouteTable = uint (Table vrfBlue)\<rparr>
                     {RT_FILTER_OIF, RT_FILTER_TABLE, RT_FILTER_DST}) rs)
             (map EvSleep (take (length rs - 1) backoffSchedule))"
    "case last rs of
       Inl err \<Rightarrow> res = Some (ErrRoutesQuery ''eth1'' (Table vrfBlue) (IPNet.truncate addrGlobal) err)
     | Inr [] \<Rightarrow> length rs = 9 \<and>
                res = Some (ErrNoHostRoute ''eth1'' (Table vrfBlue) (IPNet.truncate addrGlobal))
     | Inr (x # xs) \<Rightarrow> res = None"
    by blast
  from rs(2) res have len: "length rs = 9"
    by (auto split: sum.splits list.splits)
  have "take (length rs - 1) backoffSchedule = backoffSchedule"
    by (simp add: len backoffSchedule_def)
  with rs(1) len run res show ?thesis
    by (rule_tac x = rs in exI) (simp add: eth1_def vrfBlue_def)
qed

section \<open>Restoring the addresses lost by enslavement\<close>

text \<open>
  Claim C1. Suppose the lookup, the before-snapshot, the route snapshot, the master-set
  and the after-snapshot succeed, and let \<open>ms\<close> be the global addresses of the
  before-snapshot that no global address of the after-snapshot equals. Let \<open>post\<close> be the
  requests issued after the after-snapshot.
  \<^item> If \<open>addInterface\<close> returns nil, the addresses re-added are exactly \<open>ms\<close>, in order,
    each to the interface and each with success, and each re-add is followed by a query for
    the address's host route in the VRF's table that found a route.
  \<^item> If \<open>addInterface\<close> returns an error, then either the repair was complete and the
    error is a route-replace error, or no route was replaced and the repair stopped at
    one missing address \<open>ms ! n\<close>: the addresses before it were re-added with success, no
    address after it was touched, and the last request of the run is the failing one:
    the re-add of \<open>ms ! n\<close> (the returned error wraps the kernel's) or the last route query
    of its wait (the returned error is the wait's).
\<close>

theorem addInterface_restores_missing:
  assumes lookup: "LinkByName K intf k = (Inr i, k1)" and nomaster: "MasterIndex (Attrs i) = 0"
    and before: "AddrList K i FAMILY_V6 k1 = (Inr addrsBefore, k2)"
    and routes: "RouteListFiltered K FAMILY_ALL (snapshotFilter i) {RT_FILTER_OIF, RT_FILTER_SCOPE} k2
           = (Inr listed, k3)"
    and master: "LinkSetMaster K i (LinkVrf vrf) k3 = (None, k4)"
    and after: "AddrList K i FAMILY_V6 k4 = (Inr addrsAfter, k5)"
    and run: "addInterface K vrf intf (k, []) = (res, (k', evs))"
    and ms: "ms = missingAddresses (globalOnly addrsBefore) (globalOnly addrsAfter)"
  shows "\<exists>post.
     evs = [EvLinkByName intf (Inr i), EvAddrList i FAMILY_V6 (Inr addrsBefore),
            EvRouteListFiltered FAMILY_ALL (snapshotFilter i)
              {RT_FILTER_OIF, RT_FILTER_SCOPE} (Inr listed),
            EvLinkSetMaster i (LinkVrf vrf) None,
            EvAddrList i FAMILY_V6 (Inr addrsAfter)] @ post \<and>
     (res = None \<longrightarrow>
        addrAdds post = map (\<lambda>a. (i, a, None)) ms \<and>
        (\<forall>a\<in>set ms. \<exists>p q rs. post = p @ EvAddrAdd i a None # q \<and> rs \<noteq> [] \<and>
           EvRouteListFiltered FAMILY_ALL (hostRouteFilter vrf i a)
             {RT_FILTER_OIF, RT_FILTER_TABLE, RT_FILTER_DST} (Inr rs) \<in> set q)) \<and>
     (\<forall>e. res = Some e \<longrightarrow>
        ((\<exists>r err. e = ErrRouteReplace r err) \<and> addrAdds post = map (\<lambda>a. (i, a, None)) ms) \<or>
        (routeReplaces post = [] \<and>
         (\<exists>n r. n < length ms \<and>
            addrAdds post = map (\<lambda>a. (i, a, None)) (take n ms) @ [(i, ms ! n, r)] \<and>
            (case r of
               Some err \<Rightarrow>
                 e = ErrRestoreAddr (ms ! n) intf (Name vrf) err \<and>
                 last post = EvAddrAdd i (ms ! n) (Some err)
             | None \<Rightarrow>
                 (\<exists>resp. last post = EvRouteListFiltered FAMILY_ALL (hostRouteFilter vrf i (ms ! n))
                             {RT_FILTER_OIF, RT_FILTER_TABLE, RT_FILTER_DST} resp \<and>
                    ((\<exists>err. resp = Inl err \<and>
                         e = ErrRoutesQuery intf (Table vrf) (IPNet.truncate (ms ! n)) err) \<or>
                     (resp = Inr [] \<and>
                         e = ErrNoHostRoute intf (Table vrf) (IPNet.truncate (ms ! n)))))))))"
proof -
  let ?pre = "[EvLinkByName intf (Inr i), EvAddrList i FAMILY_V6 (Inr addrsBefore),
            EvRouteListFiltered FAMILY_ALL (snapshotFilter i)
              {RT_FILTER_OIF, RT_FILTER_SCOPE} (Inr listed),
            EvLinkSetMaster i (LinkVrf vrf) None,
            EvAddrList i FAMILY_V6 (Inr addrsAfter)]"
  let ?M = "{RT_FILTER_OIF, RT_FILTER_TABLE, RT_FILTER_DST}"
  obtain resR kR trR where R:
    "restoreAddresses K vrf intf i (globalOnly addrsAfter) (globalOnly addrsBefore) (k5, ?pre)
       = (resR, (kR, trR))"
    by (metis prod_cases3)
  note unf = addInterface_after_master [OF lookup nomaster before routes master]
  show ?thesis
  proof (cases resR)
    case (Some e)
    from run unf after R Some have eq: "res = Some e" "evs = trR"
      by simp_all
    from restore_failure [OF R [unfolded Some]] obtain post n r where f:
      "trR = ?pre @ post" "n < length ms"
      "addrAdds post = map (\<lambda>a. (i, a, None)) (take n ms) @ [(i, ms ! n, r)]"
      "case r of
          Some err \<Rightarrow> e = ErrRestoreAddr (ms ! n) intf (Name vrf) err \<and>
            last post = EvAddrAdd i (ms ! n) (Some err)
        | None \<Rightarrow>
            (\<exists>resp. last post = EvRouteListFiltered FAMILY_ALL (hostRouteFilter vrf i (ms ! n)) ?M resp \<and>
               ((\<exists>err. resp = Inl err \<and>
                    e = ErrRoutesQuery intf (Table vrf) (IPNet.truncate (ms ! n)) err) \<or>
                (resp = Inr [] \<and>
                    e = ErrNoHostRoute intf (Table vrf) (IPNet.truncate (ms ! n)))))"
      unfolding ms by blast
    from restore_kinds [OF R] f(1) have nr: "routeReplaces post = []"
      by auto
    show ?thesis
    proof (rule exI [of _ post], intro conjI allI impI)
      show "evs = ?pre @ post" using eq f(1) by simp
    next
      assume "res = None"
      with eq show "addrAdds post = map (\<lambda>a. (i, a, None)) ms" by simp
    next
      assume "res = None"
      with eq show "\<forall>a\<in>set ms. \<exists>p q rs. post = p @ EvAddrAdd i a None # q \<and> rs \<noteq> [] \<and>
           EvRouteListFiltered FAMILY_ALL (hostRouteFilter vrf i a) ?M (Inr rs) \<in> set q"
        by simp
    next
      fix e' assume "res = Some e'"
      with eq have "e' = e" by simp
      with nr f(2,3,4) show
        "((\<exists>r err. e' = ErrRouteReplace r err) \<and> addrAdds post = map (\<lambda>a. (i, a, None)) ms) \<or>
        (routeReplaces post = [] \<and>
         (\<exists>n r. n < length ms \<and>
            addrAdds post = map (\<lambda>a. (i, a, None)) (take n ms) @ [(i, ms ! n, r)] \<and>
            (case r of
               Some err \<Rightarrow>
                 e' = ErrRestoreAddr (ms ! n) intf (Name vrf) err \<and>
                 last post = EvAddrAdd i (ms ! n) (Some err)
             | None \<Rightarrow>
                 (\<exists>resp. last post = EvRouteListFiltered FAMILY_ALL (hostRouteFilter vrf i (ms ! n))
                             ?M resp \<and>
                    ((\<exists>err. resp = Inl err \<and>
                         e' = ErrRoutesQuery intf (Table vrf) (IPNet.truncate (ms ! n)) err) \<or>
                     (resp = Inr [] \<and>
                         e' = ErrNoHostRoute intf (Table vrf) (IPNet.truncate (ms ! n))))))))"
        by blast
    qed
  next
    case None
    from run unf after R None
    have P: "replayRoutes K vrf (filter (\<lambda>route. Src route \<noteq> None) listed) (kR, trR) = (res, (k', evs))"
      by simp
    from restore_success [OF R [unfolded None]] obtain evsR where s:
      "trR = ?pre @ evsR" "addrAdds evsR = map (\<lambda>a. (i, a, None)) ms"
      "\<forall>a\<in>set ms. \<exists>p q rs. evsR = p @ EvAddrAdd i a None # q \<and> rs \<noteq> [] \<and>
           EvRouteListFiltered FAMILY_ALL (hostRouteFilter vrf i a) ?M (Inr rs) \<in> set q"
      unfolding ms by blast
    from replay_run [OF P] obtain evsP where p: "evs = trR @ evsP" "addrAdds evsP = []"
      "\<forall>e. res = Some e \<longrightarrow> (\<exists>n err. e = ErrRouteReplace
          (retable vrf (filter (\<lambda>route. Src route \<noteq> None) listed ! n)) err)"
      by blast
    have adds: "addrAdds (evsR @ evsP) = map (\<lambda>a. (i, a, None)) ms"
      using s(2) p(2) by (simp add: addrAdds_append)
    show ?thesis
    proof (rule exI [of _ "evsR @ evsP"], intro conjI allI impI)
      show "evs = ?pre @ evsR @ evsP" using p(1) s(1) by simp
    next
      show "addrAdds (evsR @ evsP) = map (\<lambda>a. (i, a, None)) ms" by (fact adds)
    next
      show "\<forall>a\<in>set ms. \<exists>p q rs. evsR @ evsP = p @ EvAddrAdd i a None # q \<and> rs \<noteq> [] \<and>
           EvRouteListFiltered FAMILY_ALL (hostRouteFilter vrf i a) ?M (Inr rs) \<in> set q"
      proof
        fix a assume "a \<in> set ms"
        with s(3) obtain p q rs where "evsR = p @ EvAddrAdd i a None # q" "rs \<noteq> []"
          "EvRouteListFiltered FAMILY_ALL (hostRouteFilter vrf i a) ?M (Inr rs) \<in> set q"
          by blast
        then show "\<exists>p q rs. evsR @ evsP = p @ EvAddrAdd i a None # q \<and> rs \<noteq> [] \<and>
           EvRouteListFiltered FAMILY_ALL (hostRouteFilter vrf i a) ?M (Inr rs) \<in> set q"
          by (rule_tac x = p in exI, rule_tac x = "q @ evsP" in exI, rule_tac x = rs in exI) simp
      qed
    next
      fix e assume "res = Some e"
      with p(3) adds show
        "((\<exists>r err. e = ErrRouteReplace r err) \<and> addrAdds (evsR @ evsP) = map (\<lambda>a. (i, a, None)) ms) \<or>
        (routeReplaces (evsR @ evsP) = [] \<and>
         (\<exists>n r. n < length ms \<and>
            addrAdds (evsR @ evsP) = map (\<lambda>a. (i, a, None)) (take n ms) @ [(i, ms ! n, r)] \<and>
            (case r of
               Some err \<Rightarrow>
                 e = ErrRestoreAddr (ms ! n) intf (Name vrf) err \<and>
                 last (evsR @ evsP) = EvAddrAdd i (ms ! n) (Some err)
             | None \<Rightarrow>
                 (\<exists>resp. last (evsR @ evsP) = EvRouteListFiltered FAMILY_ALL (hostRouteFilter vrf i (ms ! n))
                             ?M resp \<and>
                    ((\<exists>err. resp = Inl err \<and>
                         e = ErrRoutesQuery intf (Table vrf) (IPNet.truncate (ms ! n)) err) \<or>
                     (resp = Inr [] \<and>
                         e = ErrNoHostRoute intf (Table vrf) (IPNet.truncate (ms ! n))))))))"
        by blast
    qed
  qed
qed

text \<open>The first five requests of \<open>addInterface\<close> for \<open>eth1\<close> in \<open>sim0\<close>.\<close>

lemma sim_lookup: "LinkByName simK ''eth1'' sim0 = (Inr eth1, sim0)"
  by (simp add: sim_defs)

lemma sim_nomaster: "MasterIndex (Attrs eth1) = 0"
  by (simp add: sim_defs)

lemma sim_before: "AddrList simK eth1 FAMILY_V6 sim0 = (Inr [addrGlobal, addrLinkLocal], sim0)"
  by (simp add: sim_defs)

lemma sim_routes:
  "RouteListFiltered simK FAMILY_ALL (snapshotFilter eth1) {RT_FILTER_OIF, RT_FILTER_SCOPE} sim0
     = (Inr [routeDefault, routeNoSrc], sim0)"
  by (simp add: sim_defs model_defs)

lemma sim_master: "LinkSetMaster simK eth1 (LinkVrf vrfBlue) sim0 = (None, sim1)"
  by (simp add: sim1_def simK_def)

lemma sim_after: "AddrList simK eth1 FAMILY_V6 sim1 = (Inr [addrLinkLocal], sim1)"
  by (simp add: sim_defs)

lemma sim_missing:
  "missingAddresses (globalOnly [addrGlobal, addrLinkLocal]) (globalOnly [addrLinkLocal]) = [addrGlobal]"
  by (simp add: missingAddresses_def globalOnly_def addrGlobal_def addrLinkLocal_def)

lemma sim_run: "fst (addInterface simK vrfBlue ''eth1'' (sim0, [])) = None"
  by (simp add: addInterface_def waitForHostRoute.simps sim_defs model_defs)

text \<open>
  Witness for C1: enslaving \<open>eth1\<close> drops \<open>2001:db8::10/64\<close>; the run re-adds it
  and then sees its host route.
\<close>

theorem addInterface_restores_missing_witness:
  "fst (addInterface simK vrfBlue ''eth1'' (sim0, [])) = None \<and>
   missingAddresses (globalOnly [addrGlobal, addrLinkLocal]) (globalOnly [addrLinkLocal]) = [addrGlobal] \<and>
   addrAdds (drop 5 (snd (snd (addInterface simK vrfBlue ''eth1'' (sim0, []))))) =
     [(eth1, addrGlobal, None)] \<and>
   (\<exists>p q rs. drop 5 (snd (snd (addInterface simK vrfBlue ''eth1'' (sim0, [])))) =
        p @ EvAddrAdd eth1 addrGlobal None # q \<and> rs \<noteq> [] \<and>
      EvRouteListFiltered FAMILY_ALL (hostRouteFilter vrfBlue eth1 addrGlobal)
        {RT_FILTER_OIF, RT_FILTER_TABLE, RT_FILTER_DST} (Inr rs) \<in> set q)"
proof -
  obtain res k' evs where run: "addInterface simK vrfBlue ''eth1'' (sim0, []) = (res, (k', evs))"
    by (metis prod_cases3)
  with sim_run have res: "res = None" by simp
  from addInterface_restores_missing
    [OF sim_lookup sim_nomaster sim_before sim_routes sim_master sim_after run sim_missing [symmetric]]
  obtain post where post:
    "evs = [EvLinkByName ''eth1'' (Inr eth1), EvAddrList eth1 FAMILY_V6 (Inr [addrGlobal, addrLinkLocal]),
            EvRouteListFiltered FAMILY_ALL (snapshotFilter eth1)
              {RT_FILTER_OIF, RT_FILTER_SCOPE} (Inr [routeDefault, routeNoSrc]),
            EvLinkSetMaster eth1 (LinkVrf vrfBlue) None,
            EvAddrList eth1 FAMILY_V6 (Inr [addrLinkLocal])] @ post"
    "res = None \<longrightarrow>
        addrAdds post = map (\<lambda>a. (eth1, a, None)) [addrGlobal] \<and>
        (\<forall>a\<in>set [addrGlobal]. \<exists>p q rs. post = p @ EvAddrAdd eth1 a None # q \<and> rs \<noteq> [] \<and>
           EvRouteListFiltered FAMILY_ALL (hostRouteFilter vrfBlue eth1 a)
             {RT_FILTER_OIF, RT_FILTER_TABLE, RT_FILTER_DST} (Inr rs) \<in> set q)"
    by blast
  from post(1) have d: "drop 5 evs = post" by simp
  from post(2) res have "addrAdds post = [(eth1, addrGlobal, None)]"
    "\<exists>p q rs. post = p @ EvAddrAdd eth1 addrGlobal None # q \<and> rs \<noteq> [] \<and>
           EvRouteListFiltered FAMILY_ALL (hostRouteFilter vrfBlue eth1 addrGlobal)
             {RT_FILTER_OIF, RT_FILTER_TABLE, RT_FILTER_DST} (Inr rs) \<in> set q"
    by simp_all
  with run res sim_missing d show ?thesis by simp
qed

section \<open>Replaying the captured routes\<close>

text \<open>
  Once the master is set, a run is the after-snapshot and the repair (\<open>post\<close>) followed by
  the replay (\<open>evsP\<close>), which is empty when an earlier step failed.
\<close>

lemma addInterface_phases:
  assumes lookup: "LinkByName K intf k = (Inr i, k1)" and nomaster: "MasterIndex (Attrs i) = 0"
    and before: "AddrList K i FAMILY_V6 k1 = (Inr addrsBefore, k2)"
    and routes: "RouteListFiltered K FAMILY_ALL (snapshotFilter i) {RT_FILTER_OIF, RT_FILTER_SCOPE} k2
           = (Inr listed, k3)"
    and master: "LinkSetMaster K i (LinkVrf vrf) k3 = (None, k4)"
    and run: "addInterface K vrf intf (k, []) = (res, (k', evs))"
    and G: "G = filter (\<lambda>route. Src route \<noteq> None) listed"
  shows "\<exists>post evsP.
     evs = [EvLinkByName intf (Inr i), EvAddrList i FAMILY_V6 (Inr addrsBefore),
            EvRouteListFiltered FAMILY_ALL (snapshotFilter i)
              {RT_FILTER_OIF, RT_FILTER_SCOPE} (Inr listed),
            EvLinkSetMaster i (LinkVrf vrf) None] @ post @ evsP \<and>
     routeReplaces post = [] \<and>
     (\<forall>ev\<in>set (post @ evsP). isListOrRepair ev) \<and>
     (\<forall>P. survivesRepair K P \<longrightarrow> P k4 \<longrightarrow> P k') \<and>
     ((res = None \<and> routeReplaces evsP = map (\<lambda>r. (retable vrf r, None)) G) \<or>
      (res \<noteq> None \<and> evsP = []) \<or>
      (\<exists>n err. n < length G \<and> res = Some (ErrRouteReplace (retable vrf (G ! n)) err) \<and>
         routeReplaces evsP = map (\<lambda>r. (retable vrf r, None)) (take n G) @
                                [(retable vrf (G ! n), Some err)] \<and>
         last evsP = EvRouteReplace (retable vrf (G ! n)) (Some err) \<and> evsP \<noteq> []))"
proof -
  let ?pre4 = "[EvLinkByName intf (Inr i), EvAddrList i FAMILY_V6 (Inr addrsBefore),
            EvRouteListFiltered FAMILY_ALL (snapshotFilter i)
              {RT_FILTER_OIF, RT_FILTER_SCOPE} (Inr listed),
            EvLinkSetMaster i (LinkVrf vrf) None]"
  note unf = addInterface_after_master [OF lookup nomaster before routes master]
  obtain ra k5 where after: "AddrList K i FAMILY_V6 k4 = (ra, k5)"
    by (cases "AddrList K i FAMILY_V6 k4")
  have s5: "P k5" if "survivesRepair K P" "P k4" for P
    using that after unfolding survivesRepair_def by (metis snd_conv)
  then have s5': "\<forall>P. survivesRepair K P \<longrightarrow> P k4 \<longrightarrow> P k5"
    by blast
  show ?thesis
  proof (cases ra)
    case (Inl err)
    with run unf after have "res = Some (ErrAddrsAfter (ErrAddrList (Name (Attrs i)) err))"
      "evs = ?pre4 @ [EvAddrList i FAMILY_V6 (Inl err)] @ []" "k' = k5"
      by simp_all
    with s5' show ?thesis
      by (rule_tac x = "[EvAddrList i FAMILY_V6 (Inl err)]" in exI, rule_tac x = "[]" in exI) simp
  next
    case (Inr addrsAfter)
    let ?a = "EvAddrList i FAMILY_V6 (Inr addrsAfter)"
    obtain resR kR trR where R:
      "restoreAddresses K vrf intf i (globalOnly addrsAfter) (globalOnly addrsBefore)
         (k5, ?pre4 @ [?a]) = (resR, (kR, trR))"
      by (metis prod_cases3)
    from restore_kinds [OF R] obtain evsR where evsR: "trR = (?pre4 @ [?a]) @ evsR"
      "routeReplaces evsR = []" "\<forall>ev\<in>set evsR. isListOrRepair ev"
      by blast
    have sR: "P kR" if "survivesRepair K P" "P k4" for P
      using restore_survives [OF that(1) R] s5 [OF that] by simp
    then have sR': "\<forall>P. survivesRepair K P \<longrightarrow> P k4 \<longrightarrow> P kR"
      by blast
    show ?thesis
    proof (cases resR)
      case (Some e)
      from run unf after Inr R Some have "res = Some e" "evs = trR" "k' = kR"
        by simp_all
      with evsR sR' show ?thesis
        by (rule_tac x = "?a # evsR" in exI, rule_tac x = "[]" in exI) simp
    next
      case None
      from run unf after Inr R None
      have P: "replayRoutes K vrf G (kR, trR) = (res, (k', evs))"
        by (simp add: G)
      from replay_run [OF P] obtain evsP where evsP: "evs = trR @ evsP"
        "\<forall>ev\<in>set evsP. isListOrRepair ev"
        "res = None \<longrightarrow> routeReplaces evsP = map (\<lambda>r. (retable vrf r, None)) G"
        "\<forall>e. res = Some e \<longrightarrow>
          (\<exists>n err. n < length G \<and>
             routeReplaces evsP = map (\<lambda>r. (retable vrf r, None)) (take n G) @
                                   [(retable vrf (G ! n), Some err)] \<and>
             e = ErrRouteReplace (retable vrf (G ! n)) err \<and>
             last evsP = EvRouteReplace (retable vrf (G ! n)) (Some err) \<and> evsP \<noteq> [])"
        by blast
      have sP: "P k'" if "survivesRepair K P" "P k4" for P
        using replay_survives [OF that(1) P] sR [OF that] by simp
      have out: "(res = None \<and> routeReplaces evsP = map (\<lambda>r. (retable vrf r, None)) G) \<or>
      (res \<noteq> None \<and> evsP = []) \<or>
      (\<exists>n err. n < length G \<and> res = Some (ErrRouteReplace (retable vrf (G ! n)) err) \<and>
         routeReplaces evsP = map (\<lambda>r. (retable vrf r, None)) (take n G) @
                                [(retable vrf (G ! n), Some err)] \<and>
         last evsP = EvRouteReplace (retable vrf (G ! n)) (Some err) \<and> evsP \<noteq> [])"
      proof (cases res)
        case None
        with evsP(3) show ?thesis by simp
      next
        case (Some e)
        with evsP(4) show ?thesis by blast
      qed
      show ?thesis
      proof (rule exI [of _ "?a # evsR"], rule exI [of _ evsP], intro conjI)
        show "evs = ?pre4 @ (?a # evsR) @ evsP" using evsP(1) evsR(1) by simp
        show "routeReplaces (?a # evsR) = []" using evsR(2) by simp
        show "\<forall>ev\<in>set ((?a # evsR) @ evsP). isListOrRepair ev" using evsR(3) evsP(2) by auto
        show "\<forall>P. survivesRepair K P \<longrightarrow> P k4 \<longrightarrow> P k'" using sP by blast
        show "(res = None \<and> routeReplaces evsP = map (\<lambda>r. (retable vrf r, None)) G) \<or>
      (res \<noteq> None \<and> evsP = []) \<or>
      (\<exists>n err. n < length G \<and> res = Some (ErrRouteReplace (retable vrf (G ! n)) err) \<and>
         routeReplaces evsP = map (\<lambda>r. (retable vrf r, None)) (take n G) @
                                [(retable vrf (G ! n), Some err)] \<and>
         last evsP = EvRouteReplace (retable vrf (G ! n)) (Some err) \<and> evsP \<noteq> [])"
          by (fact out)
      qed
    qed
  qed
qed

lemma replaced_outcome:
  assumes out: "(res = None \<and> rr = map (\<lambda>r. (retable vrf r, None)) G) \<or>
      (res \<noteq> None \<and> evsP = []) \<or>
      (\<exists>n err. n < length G \<and> res = Some (ErrRouteReplace (retable vrf (G ! n)) err) \<and>
         rr = map (\<lambda>r. (retable vrf r, None)) (take n G) @ [(retable vrf (G ! n), Some err)] \<and>
         last evsP = EvRouteReplace (retable vrf (G ! n)) (Some err) \<and> evsP \<noteq> [])"
    and rr: "rr = routeReplaces evsP"
  shows "prefix (map fst rr) (map (retable vrf) G) \<and>
         (res = None \<longrightarrow> rr = map (\<lambda>r. (retable vrf r, None)) G) \<and>
         (\<forall>r err. (r, Some err) \<in> set rr \<longrightarrow>
            res = Some (ErrRouteReplace r err) \<and> last evsP = EvRouteReplace r (Some err) \<and> evsP \<noteq> [])"
proof -
  from out consider
    (ok) "res = None" "rr = map (\<lambda>r. (retable vrf r, None)) G"
  | (early) "res \<noteq> None" "evsP = []"
  | (failed) n err where "n < length G" "res = Some (ErrRouteReplace (retable vrf (G ! n)) err)"
      "rr = map (\<lambda>r. (retable vrf r, None)) (take n G) @ [(retable vrf (G ! n), Some err)]"
      "last evsP = EvRouteReplace (retable vrf (G ! n)) (Some err)" "evsP \<noteq> []"
    by blast
  then show ?thesis
  proof cases
    case ok
    then show ?thesis by (auto simp: comp_def)
  next
    case early
    with rr show ?thesis by auto
  next
    case failed
    from failed(1) have "map fst rr = map (retable vrf) (take (Suc n) G)"
      unfolding failed(3) by (simp add: take_Suc_conv_app_nth comp_def)
    then have "prefix (map fst rr) (map (retable vrf) G)"
      by (simp add: take_map [symmetric] take_is_prefix)
    moreover have "r = retable vrf (G ! n) \<and> e = err" if "(r, Some e) \<in> set rr" for r e
      using that unfolding failed(3) by auto
    ultimately show ?thesis using failed(2,4,5) by auto
  qed
qed

text \<open>
  Claim C3. Suppose the lookup and the before-snapshot succeed and the route listing
  answers \<open>listed\<close>. The listing is the third request of the run: all families, filter
  "link index = the interface's, scope = universe" with the mask OIF, SCOPE. The routes
  handed to \<open>RouteReplace\<close> are, in order, an initial segment of the listed routes with a
  non-nil source, each with its table set to the VRF's table and nothing else changed
  (the whole of them when \<open>addInterface\<close> returns nil). A replace that fails is the last
  request of the run and its error, wrapped with the route, is the result. So a route
  with a nil source is never replayed, and when the kernel's listing honours its filter
  (every listed route has the interface's link index and scope universe) no route of
  another scope or link is replayed.
\<close>

theorem addInterface_replays_routes:
  assumes lookup: "LinkByName K intf k = (Inr i, k1)" and nomaster: "MasterIndex (Attrs i) = 0"
    and before: "AddrList K i FAMILY_V6 k1 = (Inr addrsBefore, k2)"
    and routes: "RouteListFiltered K FAMILY_ALL (snapshotFilter i) {RT_FILTER_OIF, RT_FILTER_SCOPE} k2
           = (Inr listed, k3)"
    and run: "addInterface K vrf intf (k, []) = (res, (k', evs))"
  shows "evs ! 2 = EvRouteListFiltered FAMILY_ALL
                    \<lparr>LinkIndex = Index (Attrs i), Scope = SCOPE_UNIVERSE, Dst = None, Src = None,
                     Gw = None, Protocol = 0, Priority = 0, RouteTable = 0\<rparr>
                    {RT_FILTER_OIF, RT_FILTER_SCOPE} (Inr listed) \<and>
     prefix (map fst (routeReplaces evs))
       (map (\<lambda>r. r\<lparr>RouteTable := uint (Table vrf)\<rparr>) (filter (\<lambda>r. Src r \<noteq> None) listed)) \<and>
     (res = None \<longrightarrow>
        routeReplaces evs =
          map (\<lambda>r. (r\<lparr>RouteTable := uint (Table vrf)\<rparr>, None)) (filter (\<lambda>r. Src r \<noteq> None) listed)) \<and>
     (\<forall>r err. (r, Some err) \<in> set (routeReplaces evs) \<longrightarrow>
        res = Some (ErrRouteReplace r err) \<and> last evs = EvRouteReplace r (Some err)) \<and>
     (\<forall>x\<in>set (routeReplaces evs). Src (fst x) \<noteq> None \<and> RouteTable (fst x) = uint (Table vrf)) \<and>
     ((\<forall>r\<in>set listed. LinkIndex r = Index (Attrs i) \<and> Scope r = SCOPE_UNIVERSE) \<longrightarrow>
        (\<forall>x\<in>set (routeReplaces evs).
           LinkIndex (fst x) = Index (Attrs i) \<and> Scope (fst x) = SCOPE_UNIVERSE))"
proof -
  let ?G = "filter (\<lambda>r. Src r \<noteq> None) listed"
  let ?pre3 = "[EvLinkByName intf (Inr i), EvAddrList i FAMILY_V6 (Inr addrsBefore),
            EvRouteListFiltered FAMILY_ALL (snapshotFilter i)
              {RT_FILTER_OIF, RT_FILTER_SCOPE} (Inr listed)]"
  have flt: "snapshotFilter i =
      \<lparr>LinkIndex = Index (Attrs i), Scope = SCOPE_UNIVERSE, Dst = None, Src = None,
       Gw = None, Protocol = 0, Priority = 0, RouteTable = 0\<rparr>"
    by (simp add: snapshotFilter_def emptyRoute_def)
  have rt: "(\<lambda>r. r\<lparr>RouteTable := uint (Table vrf)\<rparr>) = retable vrf"
    "(\<lambda>r. (r\<lparr>RouteTable := uint (Table vrf)\<rparr>, None :: error option)) = (\<lambda>r. (retable vrf r, None))"
    by (simp_all add: retable_def fun_eq_iff)
  obtain rm k4 where master: "LinkSetMaster K i (LinkVrf vrf) k3 = (rm, k4)"
    by (cases "LinkSetMaster K i (LinkVrf vrf) k3")
  have main: "evs ! 2 = EvRouteListFiltered FAMILY_ALL (snapshotFilter i)
                    {RT_FILTER_OIF, RT_FILTER_SCOPE} (Inr listed) \<and>
     prefix (map fst (routeReplaces evs)) (map (retable vrf) ?G) \<and>
     (res = None \<longrightarrow> routeReplaces evs = map (\<lambda>r. (retable vrf r, None)) ?G) \<and>
     (\<forall>r err. (r, Some err) \<in> set (routeReplaces evs) \<longrightarrow>
        res = Some (ErrRouteReplace r err) \<and> last evs = EvRouteReplace r (Some err))"
  proof (cases rm)
    case (Some err)
    with run lookup nomaster before routes master
    have "evs = ?pre3 @ [EvLinkSetMaster i (LinkVrf vrf) (Some err)]" "res \<noteq> None"
      by (auto simp: addInterface_def call_run getGlobalAddresses_run)
    then show ?thesis by auto
  next
    case None
    from addInterface_phases [OF lookup nomaster before routes master [unfolded None] run refl]
    obtain post evsP where ph:
      "evs = (?pre3 @ [EvLinkSetMaster i (LinkVrf vrf) None]) @ post @ evsP"
      "routeReplaces post = []"
      "(res = None \<and> routeReplaces evsP = map (\<lambda>r. (retable vrf r, None)) ?G) \<or>
       (res \<noteq> None \<and> evsP = []) \<or>
       (\<exists>n err. n < length ?G \<and> res = Some (ErrRouteReplace (retable vrf (?G ! n)) err) \<and>
         routeReplaces evsP = map (\<lambda>r. (retable vrf r, None)) (take n ?G) @
                                [(retable vrf (?G ! n), Some err)] \<and>
         last evsP = EvRouteReplace (retable vrf (?G ! n)) (Some err) \<and> evsP \<noteq> [])"
      by auto
    from ph(1,2) have rr: "routeReplaces evs = routeReplaces evsP"
      by (simp add: routeReplaces_append)
    from ph(1) have l: "evsP \<noteq> [] \<Longrightarrow> last evs = last evsP"
      by simp
    from ph(1) have e2: "evs ! 2 = EvRouteListFiltered FAMILY_ALL (snapshotFilter i)
                    {RT_FILTER_OIF, RT_FILTER_SCOPE} (Inr listed)"
      by simp
    from replaced_outcome [OF ph(3) refl] rr l e2 show ?thesis
      by auto
  qed
  then have p: "prefix (map fst (routeReplaces evs)) (map (retable vrf) ?G)"
    by simp
  have mem: "\<exists>r\<in>set ?G. fst x = retable vrf r" if "x \<in> set (routeReplaces evs)" for x
  proof -
    from that have "fst x \<in> set (map fst (routeReplaces evs))" by simp
    with p have "fst x \<in> set (map (retable vrf) ?G)"
      using set_mono_prefix by blast
    then show ?thesis by auto
  qed
  have props: "\<forall>x\<in>set (routeReplaces evs). Src (fst x) \<noteq> None \<and> RouteTable (fst x) = uint (Table vrf)"
    using mem by (fastforce simp: retable_def)
  have scope: "\<forall>x\<in>set (routeReplaces evs).
           LinkIndex (fst x) = Index (Attrs i) \<and> Scope (fst x) = SCOPE_UNIVERSE"
    if "\<forall>r\<in>set listed. LinkIndex r = Index (Attrs i) \<and> Scope r = SCOPE_UNIVERSE"
    using mem that by (fastforce simp: retable_def)
  from main props scope show ?thesis
    unfolding rt flt by blast
qed

text \<open>
  Witness for C3: of the two universe-scope routes of \<open>eth1\<close> only the default route has a
  source; it is replayed with table 2, the route without a source is not.
\<close>

theorem addInterface_replays_routes_witness:
  "fst (addInterface simK vrfBlue ''eth1'' (sim0, [])) = None \<and>
   list_all (\<lambda>r. LinkIndex r = Index (Attrs eth1) \<and> Scope r = SCOPE_UNIVERSE) [routeDefault, routeNoSrc] \<and>
   Src routeNoSrc = None \<and>
   routeReplaces (snd (snd (addInterface simK vrfBlue ''eth1'' (sim0, [])))) =
     [(routeDefault\<lparr>RouteTable := 2\<rparr>, None)]"
proof -
  obtain res k' evs where run: "addInterface simK vrfBlue ''eth1'' (sim0, []) = (res, (k', evs))"
    by (metis prod_cases3)
  with sim_run have res: "res = None" by simp
  have flt: "filter (\<lambda>r. Src r \<noteq> None) [routeDefault, routeNoSrc] = [routeDefault]"
    by (simp add: routeDefault_def routeNoSrc_def)
  from addInterface_replays_routes [OF sim_lookup sim_nomaster sim_before sim_routes run] res
  have "routeReplaces evs =
          map (\<lambda>r. (r\<lparr>RouteTable := uint (Table vrfBlue)\<rparr>, None))
            (filter (\<lambda>r. Src r \<noteq> None) [routeDefault, routeNoSrc])"
    by blast
  then have "routeReplaces evs = [(routeDefault\<lparr>RouteTable := 2\<rparr>, None)]"
    unfolding flt by (simp add: vrfBlue_def)
  with run res show ?thesis
    by (simp add: routeDefault_def routeNoSrc_def eth1_def SCOPE_UNIVERSE_def)
qed

section \<open>No rollback after the master is set\<close>

text \<open>
  Claim C10. Suppose the lookup, both snapshots before enslavement and the master-set
  succeed, leaving the kernel in state \<open>k4\<close>. Whatever \<open>addInterface\<close> then returns (in
  particular when a later step fails), every request it issues after the master-set is an
  address listing, an address add, a route listing, a route replace or a sleep: no request
  clears the master, and none removes an address or a route. Hence every property of the
  kernel state that these five kinds of request preserve (the interface is enslaved to the
  VRF, a restored address or route is installed) and that holds after the master-set still
  holds in the state \<open>k'\<close> the run ends in.
\<close>

theorem addInterface_no_rollback:
  assumes lookup: "LinkByName K intf k = (Inr i, k1)" and nomaster: "MasterIndex (Attrs i) = 0"
    and before: "AddrList K i FAMILY_V6 k1 = (Inr addrsBefore, k2)"
    and routes: "RouteListFiltered K FAMILY_ALL (snapshotFilter i) {RT_FILTER_OIF, RT_FILTER_SCOPE} k2
           = (Inr listed, k3)"
    and master: "LinkSetMaster K i (LinkVrf vrf) k3 = (None, k4)"
    and run: "addInterface K vrf intf (k, []) = (res, (k', evs))"
  shows "\<exists>post.
     evs = [EvLinkByName intf (Inr i), EvAddrList i FAMILY_V6 (Inr addrsBefore),
            EvRouteListFiltered FAMILY_ALL (snapshotFilter i)
              {RT_FILTER_OIF, RT_FILTER_SCOPE} (Inr listed),
            EvLinkSetMaster i (LinkVrf vrf) None] @ post \<and>
     (\<forall>ev\<in>set post. isListOrRepair ev) \<and>
     (\<forall>P. survivesRepair K P \<longrightarrow> P k4 \<longrightarrow> P k')"
proof -
  from addInterface_phases [OF lookup nomaster before routes master run refl]
  obtain post evsP where
    "evs = [EvLinkByName intf (Inr i), EvAddrList i FAMILY_V6 (Inr addrsBefore),
            EvRouteListFiltered FAMILY_ALL (snapshotFilter i)
              {RT_FILTER_OIF, RT_FILTER_SCOPE} (Inr listed),
            EvLinkSetMaster i (LinkVrf vrf) None] @ post @ evsP"
    "\<forall>ev\<in>set (post @ evsP). isListOrRepair ev"
    "\<forall>P. survivesRepair K P \<longrightarrow> P k4 \<longrightarrow> P k'"
    by blast
  then show ?thesis
    by (rule_tac x = "post @ evsP" in exI) simp
qed

text \<open>The run against the kernel that rejects every route replace.\<close>

lemma simFail_lookup: "LinkByName simFailReplace ''eth1'' sim0 = (Inr eth1, sim0)"
  using sim_lookup by (simp add: simFailReplace_def)

lemma simFail_before:
  "AddrList simFailReplace eth1 FAMILY_V6 sim0 = (Inr [addrGlobal, addrLinkLocal], sim0)"
  using sim_before by (simp add: simFailReplace_def)

lemma simFail_routes:
  "RouteListFiltered simFailReplace FAMILY_ALL (snapshotFilter eth1) {RT_FILTER_OIF, RT_FILTER_SCOPE} sim0
     = (Inr [routeDefault, routeNoSrc], sim0)"
  using sim_routes by (simp add: simFailReplace_def)

lemma simFail_master: "LinkSetMaster simFailReplace eth1 (LinkVrf vrfBlue) sim0 = (None, sim1)"
  using sim_master by (simp add: simFailReplace_def)

lemma simFail_run:
  "fst (addInterface simFailReplace vrfBlue ''eth1'' (sim0, [])) =
     Some (ErrRouteReplace (routeDefault\<lparr>RouteTable := 2\<rparr>) (Errno ''EINVAL''))"
  by (simp add: addInterface_def waitForHostRoute.simps simFailReplace_def sim_defs model_defs)

lemma simFail_survives:
  "survivesRepair simFailReplace
     (\<lambda>s. \<exists>l\<in>set (simLinks s). Name (Attrs l) = ''eth1'' \<and> MasterIndex (Attrs l) = 7)"
  by (simp add: survivesRepair_def simFailReplace_def simK_def)

lemma sim1_enslaved: "\<exists>l\<in>set (simLinks sim1). Name (Attrs l) = ''eth1'' \<and> MasterIndex (Attrs l) = 7"
  by (simp add: sim_defs)

text \<open>
  Witness for C10: the replay of the default route fails, \<open>addInterface\<close> returns that
  error, and \<open>eth1\<close> is still enslaved to \<open>vrf-blue\<close> (index 7) in the final state.
\<close>

theorem addInterface_no_rollback_witness:
  "fst (addInterface simFailReplace vrfBlue ''eth1'' (sim0, [])) =
     Some (ErrRouteReplace (routeDefault\<lparr>RouteTable := 2\<rparr>) (Errno ''EINVAL'')) \<and>
   (\<exists>l\<in>set (simLinks (fst (snd (addInterface simFailReplace vrfBlue ''eth1'' (sim0, []))))).
      Name (Attrs l) = ''eth1'' \<and> MasterIndex (Attrs l) = 7) \<and>
   list_all isListOrRepair (drop 4 (snd (snd (addInterface simFailReplace vrfBlue ''eth1'' (sim0, [])))))"
proof -
  obtain res k' evs where run:
    "addInterface simFailReplace vrfBlue ''eth1'' (sim0, []) = (res, (k', evs))"
    by (metis prod_cases3)
  from addInterface_no_rollback [OF simFail_lookup sim_nomaster simFail_before simFail_routes
      simFail_master run]
  obtain post where post: "evs = [EvLinkByName ''eth1'' (Inr eth1),
            EvAddrList eth1 FAMILY_V6 (Inr [addrGlobal, addrLinkLocal]),
            EvRouteListFiltered FAMILY_ALL (snapshotFilter eth1)
              {RT_FILTER_OIF, RT_FILTER_SCOPE} (Inr [routeDefault, routeNoSrc]),
            EvLinkSetMaster eth1 (LinkVrf vrfBlue) None] @ post"
    "\<forall>ev\<in>set post. isListOrRepair ev"
    and inv: "\<forall>P. survivesRepair simFailReplace P \<longrightarrow> P sim1 \<longrightarrow> P k'"
    by blast
  from inv simFail_survives sim1_enslaved
  have "\<exists>l\<in>set (simLinks k'). Name (Attrs l) = ''eth1'' \<and> MasterIndex (Attrs l) = 7"
    by blast
  moreover from post have "list_all isListOrRepair (drop 4 evs)"
    by (simp add: list_all_iff)
  ultimately show ?thesis using run simFail_run by simp
qed

section \<open>An interface that already has a master\<close>

text \<open>
  Claim C4, amended. If the interface found by name has a non-zero master index,
  \<open>addInterface\<close> issues exactly two requests, the lookup by name and the lookup of the
  master by index, neither of which changes kernel state (no master set, no address added,
  no route replaced), and fails: with an error naming the interface and the master's name
  when the master is found, and with an error naming the interface and carrying the
  lookup's error when it is not.
\<close>

theorem addInterface_already_enslaved:
  assumes lookup: "LinkByName K intf k = (Inr i, k1)" and enslaved: "MasterIndex (Attrs i) \<noteq> 0"
    and byindex: "LinkByIndex K (MasterIndex (Attrs i)) k1 = (rm, k2)"
    and run: "addInterface K vrf intf (k, []) = (res, (k', evs))"
  shows "k' = k2 \<and>
     evs = [EvLinkByName intf (Inr i), EvLinkByIndex (MasterIndex (Attrs i)) rm] \<and>
     (\<forall>ev\<in>set evs. \<not> isMutation ev) \<and>
     (case rm of
        Inr master \<Rightarrow> res = Some (ErrMasterSet intf (Name (Attrs master)))
      | Inl err \<Rightarrow> res = Some (ErrMasterUnknown intf err))"
  using assms by (cases rm) (auto simp: addInterface_def call_run)

text \<open>In \<open>simOrphan\<close> the master of \<open>eth1\<close> (index 9) does not exist.\<close>

lemma simOrphan_lookup:
  "LinkByName simK ''eth1'' simOrphan =
     (Inr (LinkOther ''veth'' \<lparr>Index = 3, Name = ''eth1'', MasterIndex = 9\<rparr>), simOrphan)"
  by (simp add: simOrphan_def sim_defs)

text \<open>
  Counterexample to C4 as stated: \<open>eth1\<close> has master index 9, the lookup of link 9 fails,
  and the returned error names \<open>eth1\<close> and the lookup failure, not the master.
\<close>

theorem addInterface_already_enslaved_counterexample:
  "LinkByName simK ''eth1'' simOrphan =
     (Inr (LinkOther ''veth'' \<lparr>Index = 3, Name = ''eth1'', MasterIndex = 9\<rparr>), simOrphan) \<and>
   fst (addInterface simK vrfBlue ''eth1'' (simOrphan, [])) =
     Some (ErrMasterUnknown ''eth1'' (Errno ''Link not found''))"
  by (simp add: simOrphan_lookup) (simp add: addInterface_def simOrphan_def sim_defs model_defs)

lemma sim1_lookup:
  "LinkByName simK ''eth1'' sim1 =
     (Inr (LinkOther ''veth'' \<lparr>Index = 3, Name = ''eth1'', MasterIndex = 7\<rparr>), sim1)"
  by (simp add: sim_defs)

lemma sim1_byindex: "LinkByIndex simK 7 sim1 = (Inr (LinkVrf vrfBlue), sim1)"
  by (simp add: sim_defs)

text \<open>
  Witness for C4: in \<open>sim1\<close>, \<open>eth1\<close> is enslaved to \<open>vrf-blue\<close>; the run makes the two
  lookups, leaves the kernel state as it was and names \<open>vrf-blue\<close>.
\<close>

theorem addInterface_already_enslaved_witness:
  "addInterface simK vrfBlue ''eth1'' (sim1, []) =
     (Some (ErrMasterSet ''eth1'' ''vrf-blue''),
      (sim1, [EvLinkByName ''eth1'' (Inr (LinkOther ''veth'' \<lparr>Index = 3, Name = ''eth1'', MasterIndex = 7\<rparr>)),
              EvLinkByIndex 7 (Inr (LinkVrf vrfBlue))]))"
proof -
  obtain res k' evs where run: "addInterface simK vrfBlue ''eth1'' (sim1, []) = (res, (k', evs))"
    by (metis prod_cases3)
  have m: "MasterIndex (Attrs (LinkOther ''veth'' \<lparr>Index = 3, Name = ''eth1'', MasterIndex = 7\<rparr>)) \<noteq> 0"
    by simp
  have b: "LinkByIndex simK
       (MasterIndex (Attrs (LinkOther ''veth'' \<lparr>Index = 3, Name = ''eth1'', MasterIndex = 7\<rparr>))) sim1
     = (Inr (LinkVrf vrfBlue), sim1)"
    using sim1_byindex by simp
  from addInterface_already_enslaved [OF sim1_lookup m b run] run show ?thesis
    by (simp add: vrfBlue_def LinkAttrs.truncate_def)
qed

section \<open>Creating and finding a VRF\<close>

text \<open>
  Claim C7. Let \<open>links\<close> be the link list the kernel returns, and let \<open>t\<close> be the
  allocator's result over \<open>links\<close> when \<open>tableID = 0\<close>, and \<open>tableID\<close> itself otherwise.
  If adding the VRF descriptor with name \<open>name\<close> and table \<open>t\<close> and bringing it up
  succeed, \<open>createVRF\<close> returns that descriptor, and its requests are the listing, the
  add and the set-up. Nothing relates a non-zero \<open>tableID\<close> to the tables in use: it is
  not checked for collision.
\<close>

theorem createVRF_table:
  assumes links: "LinkList K k = (Inr links, k1)"
    and table: "(tableID = 0 \<and> findFreeRoutingTableID links = Inr t) \<or> (tableID \<noteq> 0 \<and> t = tableID)"
    and v: "v = \<lparr>Index = 0, Name = name, MasterIndex = 0, Table = t\<rparr>"
    and add: "LinkAdd K (LinkVrf v) k1 = (None, k2)"
    and up: "LinkSetUp K (LinkVrf v) k2 = (None, k3)"
  shows "createVRF K name tableID (k, []) =
           (Inr v, (k3, [EvLinkList (Inr links), EvLinkAdd (LinkVrf v) None,
                         EvLinkSetUp (LinkVrf v) None]))"
  using assms by (auto simp: createVRF_def call_run NewLinkAttrs_def Let_def)

lemma simNoBlue_links: "LinkList simK simNoBlue = (Inr (eth1 # exLinks), simNoBlue)"
  by (simp add: simK_def simNoBlue_def)

lemma simNoBlue_tables: "tablesOfVrfs (eth1 # exLinks) = {1, 3}"
  by (simp add: tablesOfVrfs_def exLinks_def eth1_def)

lemma simNoBlue_free: "findFreeRoutingTableID (eth1 # exLinks) = Inr 2"
  by (simp add: findFreeRoutingTableID_def takenTables_eq simNoBlue_tables
      findFreeLoop.simps MaxUint32_def)

text \<open>
  Witness for C7: with \<open>vrf-blue\<close> absent and the tables 1 and 3 in use, \<open>createVRF\<close>
  with table 0 builds \<open>vrf-blue\<close> with table 2, and with table 3 it builds it with
  table 3, which \<open>vrf-green\<close> already uses.
\<close>

theorem createVRF_table_witness:
  "tablesOfVrfs (eth1 # exLinks) = {1, 3} \<and>
   map_sum id Table (fst (createVRF simK ''vrf-blue'' 0 (simNoBlue, []))) = Inr 2 \<and>
   map_sum id Table (fst (createVRF simK ''vrf-blue'' 3 (simNoBlue, []))) = Inr 3"
proof -
  have up: "LinkSetUp simK l s = (None, s)" for l s
    by (simp add: simK_def)
  obtain s2 where add2: "LinkAdd simK
      (LinkVrf \<lparr>Index = 0, Name = ''vrf-blue'', MasterIndex = 0, Table = 2\<rparr>) simNoBlue = (None, s2)"
    by (simp add: simK_def)
  obtain s3 where add3: "LinkAdd simK
      (LinkVrf \<lparr>Index = 0, Name = ''vrf-blue'', MasterIndex = 0, Table = 3\<rparr>) simNoBlue = (None, s3)"
    by (simp add: simK_def)
  have t2: "((0::uint32) = 0 \<and> findFreeRoutingTableID (eth1 # exLinks) = Inr 2) \<or>
            ((0::uint32) \<noteq> 0 \<and> (2::uint32) = 0)"
    by (simp add: simNoBlue_free)
  have t3: "((3::uint32) = 0 \<and> findFreeRoutingTableID (eth1 # exLinks) = Inr 3) \<or>
            ((3::uint32) \<noteq> 0 \<and> (3::uint32) = 3)"
    by simp
  from createVRF_table [OF simNoBlue_links t2 refl add2 up]
       createVRF_table [OF simNoBlue_links t3 refl add3 up] simNoBlue_tables
  show ?thesis by simp
qed

text \<open>
  Claim C8. When a link exists under the name, \<open>findVRF\<close> fails with the type-mismatch
  error "Netlink <name> is not a VRF" if the link is not a VRF device, and if it is one
  \<open>findVRF\<close> returns the VRF exactly as the kernel reports it, so with the table the
  kernel stored when the VRF was created.
\<close>

theorem findVRF_result:
  assumes "LinkByName K name k = (Inr link, k1)"
  shows "(\<forall>kind attrs. link = LinkOther kind attrs \<longrightarrow>
            findVRF K name (k, []) = (Inl (ErrNotVRF name), (k1, [EvLinkByName name (Inr link)]))) \<and>
         (\<forall>vrf. link = LinkVrf vrf \<longrightarrow>
            findVRF K name (k, []) = (Inr vrf, (k1, [EvLinkByName name (Inr link)])))"
  using assms by (auto simp: findVRF_def call_run)

text \<open>Creating \<open>vrf-blue\<close> in \<open>simNoBlue\<close>: the kernel stores it with index 6 and table 2.\<close>

lemma sim_created:
  "createVRF simK ''vrf-blue'' 0 (simNoBlue, []) =
     (Inr \<lparr>Index = 0, Name = ''vrf-blue'', MasterIndex = 0, Table = 2\<rparr>,
      (simNoBlue\<lparr>simLinks := eth1 # exLinks @
          [LinkVrf \<lparr>Index = 6, Name = ''vrf-blue'', MasterIndex = 0, Table = 2\<rparr>]\<rparr>,
       [EvLinkList (Inr (eth1 # exLinks)),
        EvLinkAdd (LinkVrf \<lparr>Index = 0, Name = ''vrf-blue'', MasterIndex = 0, Table = 2\<rparr>) None,
        EvLinkSetUp (LinkVrf \<lparr>Index = 0, Name = ''vrf-blue'', MasterIndex = 0, Table = 2\<rparr>) None]))"
  by (simp add: createVRF_def call_run simNoBlue_links simNoBlue_free NewLinkAttrs_def Let_def)
     (simp add: call_def simK_def simNoBlue_def simSetIndex_def exLinks_def)

text \<open>
  Witness for C8: \<open>findVRF\<close> of the veth interface \<open>eth1\<close> fails with the type-mismatch
  error; \<open>findVRF\<close> of \<open>vrf-blue\<close> after \<open>createVRF\<close> returns table 2, the table it was
  created with.
\<close>

theorem findVRF_result_witness:
  "fst (findVRF simK ''eth1'' (sim0, [])) = Inl (ErrNotVRF ''eth1'') \<and>
   map_sum id Table (fst (createVRF simK ''vrf-blue'' 0 (simNoBlue, []))) = Inr 2 \<and>
   map_sum id Table
     (fst (findVRF simK ''vrf-blue'' (fst (snd (createVRF simK ''vrf-blue'' 0 (simNoBlue, []))), [])))
     = Inr 2"
proof -
  let ?s = "simNoBlue\<lparr>simLinks := eth1 # exLinks @
          [LinkVrf \<lparr>Index = 6, Name = ''vrf-blue'', MasterIndex = 0, Table = 2\<rparr>]\<rparr>"
  have l: "LinkByName simK ''vrf-blue'' ?s =
      (Inr (LinkVrf \<lparr>Index = 6, Name = ''vrf-blue'', MasterIndex = 0, Table = 2\<rparr>), ?s)"
    by (simp add: simNoBlue_def sim_defs)
  from findVRF_result [OF sim_lookup] have "fst (findVRF simK ''eth1'' (sim0, [])) = Inl (ErrNotVRF ''eth1'')"
    by (simp add: eth1_def)
  moreover from findVRF_result [OF l]
  have "fst (findVRF simK ''vrf-blue'' (?s, [])) =
          Inr \<lparr>Index = 6, Name = ''vrf-blue'', MasterIndex = 0, Table = 2\<rparr>"
    by simp
  ultimately show ?thesis
    by (simp add: sim_created)
qed

section \<open>Clearing the master\<close>

text \<open>
  Claim C9, amended. \<open>resetMaster\<close> looks the interface up by name and clears its master.
  It issues at most two requests, each once (nothing is retried). If the lookup fails it
  returns at once the error "resetMaster: could not get link by name <name>"; if clearing
  the master fails it returns "resetMaster: could reset master to <name>". Both errors
  name the interface; neither carries the error the kernel returned.
\<close>

theorem resetMaster_result:
  assumes "resetMaster K interfaceName (k, []) = (res, (k', evs))"
  shows "length evs \<le> 2 \<and>
     (\<forall>err k1. LinkByName K interfaceName k = (Inl err, k1) \<longrightarrow>
        res = Some (ErrResetLookup interfaceName) \<and>
        evs = [EvLinkByName interfaceName (Inl err)] \<and> k' = k1) \<and>
     (\<forall>intf k1 err k2.
        LinkByName K interfaceName k = (Inr intf, k1) \<and>
        LinkSetNoMaster K intf k1 = (Some err, k2) \<longrightarrow>
        res = Some (ErrResetMaster interfaceName) \<and>
        evs = [EvLinkByName interfaceName (Inr intf), EvLinkSetNoMaster intf (Some err)] \<and>
        k' = k2) \<and>
     (\<forall>intf k1 k2.
        LinkByName K interfaceName k = (Inr intf, k1) \<and>
        LinkSetNoMaster K intf k1 = (None, k2) \<longrightarrow>
        res = None \<and>
        evs = [EvLinkByName interfaceName (Inr intf), EvLinkSetNoMaster intf None] \<and>
        k' = k2)"
  using assms
  by (auto simp: resetMaster_def call_run split: prod.splits sum.splits option.splits)

text \<open>
  Counterexample to C9 as stated ("returns the failure as-is"): the lookup of \<open>eth9\<close>
  fails with the kernel's "Link not found", and \<open>resetMaster\<close> returns its own error, in
  which the kernel's error does not appear.
\<close>

theorem resetMaster_result_counterexample:
  "LinkByName simK ''eth9'' sim0 = (Inl (Errno ''Link not found''), sim0) \<and>
   fst (resetMaster simK ''eth9'' (sim0, [])) = Some (ErrResetLookup ''eth9'') \<and>
   ErrResetLookup ''eth9'' \<noteq> Errno ''Link not found''"
  by (simp add: resetMaster_def call_run) (simp add: sim_defs)

text \<open>
  Witness for C9: clearing the master of the enslaved \<open>eth1\<close> succeeds with one lookup and
  one clear request; for the absent \<open>eth9\<close> the lookup error names \<open>eth9\<close>.
\<close>

theorem resetMaster_result_witness:
  "fst (resetMaster simK ''eth1'' (sim1, [])) = None \<and>
   snd (snd (resetMaster simK ''eth1'' (sim1, []))) =
     [EvLinkByName ''eth1'' (Inr (LinkOther ''veth'' \<lparr>Index = 3, Name = ''eth1'', MasterIndex = 7\<rparr>)),
      EvLinkSetNoMaster (LinkOther ''veth'' \<lparr>Index = 3, Name = ''eth1'', MasterIndex = 7\<rparr>) None] \<and>
   fst (resetMaster simK ''eth9'' (sim0, [])) = Some (ErrResetLookup ''eth9'')"
proof -
  obtain res k' evs where run: "resetMaster simK ''eth1'' (sim1, []) = (res, (k', evs))"
    by (metis prod_cases3)
  obtain res9 k9 evs9 where run9: "resetMaster simK ''eth9'' (sim0, []) = (res9, (k9, evs9))"
    by (metis prod_cases3)
  obtain s2 where clear: "LinkSetNoMaster simK
      (LinkOther ''veth'' \<lparr>Index = 3, Name = ''eth1'', MasterIndex = 7\<rparr>) sim1 = (None, s2)"
    by (simp add: simK_def)
  have l9: "LinkByName simK ''eth9'' sim0 = (Inl (Errno ''Link not found''), sim0)"
    by (simp add: sim_defs)
  from resetMaster_result [OF run] sim1_lookup clear
  have "res = None \<and> evs =
     [EvLinkByName ''eth1'' (Inr (LinkOther ''veth'' \<lparr>Index = 3, Name = ''eth1'', MasterIndex = 7\<rparr>)),
      EvLinkSetNoMaster (LinkOther ''veth'' \<lparr>Index = 3, Name = ''eth1'', MasterIndex = 7\<rparr>) None]"
    by blast
  moreover from resetMaster_result [OF run9] l9 have "res9 = Some (ErrResetLookup ''eth9'')"
    by blast
  ultimately show ?thesis using run run9 by simp
qed

end
